theory Spec2Isabelle
  imports Main "HOL-Library.Word" "HOL-Library.AList"
begin

section \<open>Values of the JavaScript runtime\<close>

text \<open>
  A Node \<open>Buffer\<close> is a list of bytes. A JavaScript number that comes out of
  \<open>parseInt\<close> is either an integer or \<open>NaN\<close>.
\<close>

type_synonym byte = "8 word"
type_synonym buffer = "byte list"

datatype jsnum = NaN | Num int

text \<open>Truthiness of a number (\<open>0\<close> and \<open>NaN\<close> are falsy) and of a string (the
  empty string is falsy); \<open>None\<close> stands for \<open>null\<close> or \<open>undefined\<close>.\<close>

fun truthy_num :: "jsnum option \<Rightarrow> bool" where
  "truthy_num None = False"
| "truthy_num (Some NaN) = False"
| "truthy_num (Some (Num n)) = (n \<noteq> 0)"

fun truthy_str :: "string option \<Rightarrow> bool" where
  "truthy_str None = False"
| "truthy_str (Some s) = (s \<noteq> [])"

subsection \<open>Hexadecimal encoding of buffers\<close>

text \<open>\<open>buf.toString('hex')\<close>: two lower-case digits per byte.\<close>

definition hex_digit :: "nat \<Rightarrow> char" where
  "hex_digit n = ''0123456789abcdef'' ! n"

definition to_hex :: "buffer \<Rightarrow> string" where
  "to_hex bs = concat (map (\<lambda>b. [hex_digit (unat b div 16), hex_digit (unat b mod 16)]) bs)"

text \<open>\<open>Buffer.from(s, 'hex')\<close>: decodes pairs of hex digits (either case) and stops at
  the first pair that is not hexadecimal; a trailing single character is dropped.\<close>

definition hex_val :: "char \<Rightarrow> nat option" where
  "hex_val c =
     (let n = (of_char c :: nat) in
      if 48 \<le> n \<and> n \<le> 57 then Some (n - 48)
      else if 97 \<le> n \<and> n \<le> 102 then Some (n - 87)
      else if 65 \<le> n \<and> n \<le> 70 then Some (n - 55)
      else None)"

fun from_hex :: "string \<Rightarrow> buffer" where
  "from_hex (a # b # rest) =
     (case hex_val a of
        None \<Rightarrow> []
      | Some h \<Rightarrow>
          (case hex_val b of
             None \<Rightarrow> []
           | Some l \<Rightarrow> of_nat (16 * h + l) # from_hex rest))"
| "from_hex _ = []"

section \<open>The libraries the server calls\<close>

text \<open>
  zlib, OpenSSL (through Node's \<open>crypto\<close>) and bcryptjs are not part of the repository.
  They are a parameter of the model: a record of functions. \<open>None\<close> is a thrown
  exception.
  \<^item> \<open>zlib_gzip\<close>, \<open>zlib_brotli\<close>: compression at a level; they throw on a level
    outside their range;
  \<^item> \<open>zlib_gunzip\<close>, \<open>zlib_unbrotli\<close>: decompression; they throw on malformed input;
  \<^item> \<open>aes_gcm_seal key iv data\<close>: \<open>createCipheriv('aes-256-gcm', key, iv)\<close> followed
    by \<open>update\<close>, \<open>final\<close> and \<open>getAuthTag\<close>, giving ciphertext and tag;
  \<^item> \<open>aes_gcm_open key iv tag data\<close>: \<open>createDecipheriv\<close>, \<open>setAuthTag\<close>, \<open>update\<close>
    and \<open>final\<close>; it throws when the tag does not verify;
  \<^item> \<open>sha256\<close>: the digest; \<open>bcrypt_hash\<close> and \<open>bcrypt_compare\<close>: bcryptjs.
\<close>

record lib =
  zlib_gzip :: "jsnum \<Rightarrow> buffer \<Rightarrow> buffer option"
  zlib_gunzip :: "buffer \<Rightarrow> buffer option"
  zlib_brotli :: "jsnum \<Rightarrow> buffer \<Rightarrow> buffer option"
  zlib_unbrotli :: "buffer \<Rightarrow> buffer option"
  aes_gcm_seal :: "buffer \<Rightarrow> buffer \<Rightarrow> buffer \<Rightarrow> (buffer \<times> buffer) option"
  aes_gcm_open :: "buffer \<Rightarrow> buffer \<Rightarrow> buffer \<Rightarrow> buffer \<Rightarrow> buffer option"
  sha256 :: "buffer \<Rightarrow> buffer"
  bcrypt_hash :: "string \<Rightarrow> string"
  bcrypt_compare :: "string \<Rightarrow> string \<Rightarrow> bool"

text \<open>What the libraries promise, as far as the pipeline relies on it: at the levels
  1 to 9 compression succeeds and decompression inverts it; with a 32-byte key and a
  non-empty IV, sealing succeeds, keeps the length of the data and returns a tag of 16
  bytes, and opening with the same key, IV and tag gives the data back; bcrypt accepts
  the password it hashed.\<close>

definition level_ok :: "jsnum \<Rightarrow> bool" where
  "level_ok l = (case l of NaN \<Rightarrow> False | Num n \<Rightarrow> 1 \<le> n \<and> n \<le> 9)"

definition lib_ok :: "lib \<Rightarrow> bool" where
  "lib_ok L \<longleftrightarrow>
     (\<forall>l b. level_ok l \<longrightarrow> (\<exists>z. zlib_gzip L l b = Some z \<and> zlib_gunzip L z = Some b)) \<and>
     (\<forall>l b. level_ok l \<longrightarrow> (\<exists>z. zlib_brotli L l b = Some z \<and> zlib_unbrotli L z = Some b)) \<and>
     (\<forall>k iv p. length k = 32 \<and> iv \<noteq> [] \<longrightarrow>
        (\<exists>c t. aes_gcm_seal L k iv p = Some (c, t) \<and> length c = length p \<and>
               length t = 16 \<and> aes_gcm_open L k iv t c = Some p)) \<and>
     (\<forall>pw. bcrypt_compare L pw (bcrypt_hash L pw))"

text \<open>What AES-GCM verifies for certain: a key that is not 32 bytes long is refused,
  and under the key and IV that sealed a ciphertext nothing but a non-empty leading
  part of its tag is accepted. (That another 32-byte key is refused holds only with
  overwhelming probability, since many keys share a 16-byte tag; it is no promise
  here.)\<close>

definition lib_auth :: "lib \<Rightarrow> bool" where
  "lib_auth L \<longleftrightarrow>
     (\<forall>k iv t c. length k \<noteq> 32 \<longrightarrow> aes_gcm_open L k iv t c = None) \<and>
     (\<forall>k iv p c t t'. aes_gcm_seal L k iv p = Some (c, t) \<and> aes_gcm_open L k iv t' c \<noteq> None \<longrightarrow>
        t' \<noteq> [] \<and> t' = take (length t') t)"

section \<open>lib/encryption.js\<close>

definition KEY_LENGTH :: nat where "KEY_LENGTH = 32"
definition IV_LENGTH :: nat where "IV_LENGTH = 16"
definition SALT_LENGTH :: nat where "SALT_LENGTH = 32"

text \<open>The generators turn the bytes that \<open>crypto.randomBytes\<close> returns into a hex
  string; the random bytes are an input of the model.\<close>

definition generateKey :: "buffer \<Rightarrow> string" where
  "generateKey rnd = to_hex rnd"

definition generateIV :: "buffer \<Rightarrow> string" where
  "generateIV rnd = to_hex rnd"

definition generateSalt :: "buffer \<Rightarrow> string" where
  "generateSalt rnd = to_hex rnd"

text \<open>\<open>encrypt(data, key, iv)\<close> and \<open>decrypt(encryptedData, key, iv, authTag)\<close>; key,
  IV and tag are hex strings. \<open>None\<close>: the call throws.\<close>

definition encrypt :: "lib \<Rightarrow> buffer \<Rightarrow> string \<Rightarrow> string \<Rightarrow> (buffer \<times> string) option" where
  "encrypt L data key iv =
     (case aes_gcm_seal L (from_hex key) (from_hex iv) data of
        None \<Rightarrow> None
      | Some (encrypted, authTag) \<Rightarrow> Some (encrypted, to_hex authTag))"

definition decrypt :: "lib \<Rightarrow> buffer \<Rightarrow> string \<Rightarrow> string \<Rightarrow> string \<Rightarrow> buffer option" where
  "decrypt L encryptedData key iv authTag =
     aes_gcm_open L (from_hex key) (from_hex iv) (from_hex authTag) encryptedData"

definition generateChecksum :: "lib \<Rightarrow> buffer \<Rightarrow> string" where
  "generateChecksum L data = to_hex (sha256 L data)"

section \<open>lib/compression.js\<close>

datatype algorithm = GZIP | BROTLI

text \<open>The ratio \<open>(compressedSize / originalSize * 100).toFixed(2)\<close> is a floating-point
  expression; the model keeps its two arguments, compressed size first, instead of
  the rounded quotient.\<close>

datatype ratio = Percent nat nat

definition compressGzip :: "lib \<Rightarrow> buffer \<Rightarrow> jsnum \<Rightarrow> buffer option" where
  "compressGzip L data level = zlib_gzip L level data"

definition decompressGzip :: "lib \<Rightarrow> buffer \<Rightarrow> buffer option" where
  "decompressGzip L data = zlib_gunzip L data"

definition compressBrotli :: "lib \<Rightarrow> buffer \<Rightarrow> jsnum \<Rightarrow> buffer option" where
  "compressBrotli L data level = zlib_brotli L level data"

definition decompressBrotli :: "lib \<Rightarrow> buffer \<Rightarrow> buffer option" where
  "decompressBrotli L data = zlib_unbrotli L data"

text \<open>The choice between the two that \<open>compressFile\<close> and \<open>decompressFile\<close> make:
  Brotli when the algorithm is \<open>'brotli'\<close>, gzip otherwise.\<close>

definition compress :: "lib \<Rightarrow> algorithm \<Rightarrow> jsnum \<Rightarrow> buffer \<Rightarrow> buffer option" where
  "compress L a level data =
     (if a = BROTLI then compressBrotli L data level else compressGzip L data level)"

definition decompress :: "lib \<Rightarrow> algorithm \<Rightarrow> buffer \<Rightarrow> buffer option" where
  "decompress L a data =
     (if a = BROTLI then decompressBrotli L data else decompressGzip L data)"

text \<open>\<open>selectAlgorithm(mimeType)\<close>: Brotli when the MIME type contains one of the text
  types as a substring.\<close>

definition textTypes :: "string list" where
  "textTypes = [''text/'', ''application/json'', ''application/javascript'',
                ''application/xml'', ''application/xhtml'', ''image/svg'']"

fun str_includes :: "string \<Rightarrow> string \<Rightarrow> bool" where
  "str_includes [] sub = (sub = [])"
| "str_includes (c # cs) sub = (take (length sub) (c # cs) = sub \<or> str_includes cs sub)"

definition selectAlgorithm :: "string option \<Rightarrow> algorithm" where
  "selectAlgorithm mimeType =
     (if \<exists>ty \<in> set textTypes.
           (case mimeType of None \<Rightarrow> False | Some m \<Rightarrow> m \<noteq> [] \<and> str_includes m ty)
      then BROTLI else GZIP)"

text \<open>\<open>compressFile\<close> pipes the input through the compressor of the algorithm and
  reports the ratio of the two sizes; it throws when the compressor does.\<close>

definition compressFile :: "lib \<Rightarrow> buffer \<Rightarrow> algorithm \<Rightarrow> jsnum \<Rightarrow> (buffer \<times> ratio) option" where
  "compressFile L input a level =
     (case compress L a level input of
        None \<Rightarrow> None
      | Some output \<Rightarrow> Some (output, Percent (length output) (length input)))"

subsection \<open>parseInt and the decimal form of a number\<close>

text \<open>
  \<open>parseInt(s)\<close> without a radix: leading white space is skipped, a sign is read, the
  prefix \<open>0x\<close> selects radix 16, and the longest prefix of digits is the value; no digit
  at all gives \<open>NaN\<close>. (Exact integers; the rounding of values beyond \<open>2^53\<close> is not
  modelled.)
\<close>

definition is_space :: "char \<Rightarrow> bool" where
  "is_space c = (c \<in> set [CHR '' '', CHR 0x09, CHR 0x0A, CHR 0x0B, CHR 0x0C, CHR 0x0D])"

definition is_digit_in :: "nat \<Rightarrow> char \<Rightarrow> bool" where
  "is_digit_in radix c = (case hex_val c of None \<Rightarrow> False | Some d \<Rightarrow> d < radix)"

definition digits_value :: "nat \<Rightarrow> string \<Rightarrow> nat" where
  "digits_value radix ds =
     foldl (\<lambda>a c. radix * a + (case hex_val c of None \<Rightarrow> 0 | Some d \<Rightarrow> d)) 0 ds"

definition parse_unsigned :: "string \<Rightarrow> nat option" where
  "parse_unsigned u =
     (let (radix, v) = (if take 2 u = ''0x'' \<or> take 2 u = ''0X'' then (16, drop 2 u)
                        else (10, u));
          ds = takeWhile (is_digit_in radix) v
      in if ds = [] then None else Some (digits_value radix ds))"

definition parseInt :: "string \<Rightarrow> jsnum" where
  "parseInt s =
     (case dropWhile is_space s of
        [] \<Rightarrow> NaN
      | c # r \<Rightarrow>
          if c = CHR ''-'' then (case parse_unsigned r of None \<Rightarrow> NaN | Some n \<Rightarrow> Num (- int n))
          else if c = CHR ''+'' then (case parse_unsigned r of None \<Rightarrow> NaN | Some n \<Rightarrow> Num (int n))
          else (case parse_unsigned (c # r) of None \<Rightarrow> NaN | Some n \<Rightarrow> Num (int n)))"

text \<open>The string a template literal makes of a non-negative integer, as in
  \<open>`chunk-${i}`\<close>: its decimal digits.\<close>

fun dec :: "nat \<Rightarrow> string" where
  "dec n = (if n < 10 then [''0123456789'' ! n]
            else dec (n div 10) @ [''0123456789'' ! (n mod 10)])"

declare dec.simps [simp del]

section \<open>db/database.js\<close>

text \<open>
  A transfer record, with the fields \<open>transferDb.create\<close> stores. Times are
  milliseconds since the epoch (the ISO strings of the source, parsed).
\<close>

record transfer =
  id' :: string
  filename :: string
  original_filename :: string
  original_size :: nat
  compressed_size :: nat
  compression_ratio :: ratio
  encryption_iv :: string
  encryption_salt :: string
  password_hash :: "string option"
  mime_type :: string
  expires_at :: "int option"
  max_downloads :: "jsnum option"
  checksum :: string
  created_at :: int
  download_count :: nat
  status :: string

datatype details = NoDetails | Text string | Size nat | UploadSizes nat nat ratio

record log =
  log_id :: nat
  transfer_id :: string
  action :: string
  details :: details
  log_created_at :: int

text \<open>
  The state of the server: the two tables of the database, the encrypted artifacts in
  \<open>uploads/\<close> by file name, the chunk directories \<open>uploads/chunks/<transferId>/\<close>
  (each a list of file name and content, without duplicate names) and the merged files
  in \<open>uploads/temp/\<close>.
\<close>

record state =
  transfers :: "transfer list"
  logs :: "log list"
  uploads :: "string \<Rightarrow> buffer option"
  chunks :: "string \<Rightarrow> (string \<times> buffer) list option"
  temp :: "string \<Rightarrow> buffer option"

text \<open>\<open>Array.find\<close> and an update of the element it finds (the first match).\<close>

fun update_first :: "('a \<Rightarrow> bool) \<Rightarrow> ('a \<Rightarrow> 'a) \<Rightarrow> 'a list \<Rightarrow> 'a list" where
  "update_first P f [] = []"
| "update_first P f (x # xs) = (if P x then f x # xs else x # update_first P f xs)"

fun remove_first :: "('a \<Rightarrow> bool) \<Rightarrow> 'a list \<Rightarrow> 'a list" where
  "remove_first P [] = []"
| "remove_first P (x # xs) = (if P x then xs else x # remove_first P xs)"

definition transferDb_create :: "int \<Rightarrow> transfer \<Rightarrow> state \<Rightarrow> state" where
  "transferDb_create now tr s =
     s\<lparr>transfers := transfers s @
          [tr\<lparr>created_at := now, download_count := 0, status := ''active''\<rparr>]\<rparr>"

definition getById :: "state \<Rightarrow> string \<Rightarrow> transfer option" where
  "getById s i = find (\<lambda>t. id' t = i) (transfers s)"

definition updateDownloadCount :: "string \<Rightarrow> state \<Rightarrow> state" where
  "updateDownloadCount i s =
     s\<lparr>transfers := update_first (\<lambda>t. id' t = i)
          (\<lambda>t. t\<lparr>download_count := download_count t + 1\<rparr>) (transfers s)\<rparr>"

definition updateStatus :: "string \<Rightarrow> string \<Rightarrow> state \<Rightarrow> state" where
  "updateStatus i st s =
     s\<lparr>transfers := update_first (\<lambda>t. id' t = i) (\<lambda>t. t\<lparr>status := st\<rparr>) (transfers s)\<rparr>"

definition transferDb_delete :: "string \<Rightarrow> state \<Rightarrow> state" where
  "transferDb_delete i s = s\<lparr>transfers := remove_first (\<lambda>t. id' t = i) (transfers s)\<rparr>"

text \<open>\<open>t.expires_at && new Date(t.expires_at) < now\<close>.\<close>

definition expired :: "int \<Rightarrow> transfer \<Rightarrow> bool" where
  "expired now t = (case expires_at t of None \<Rightarrow> False | Some e \<Rightarrow> e < now)"

definition cleanupExpired :: "int \<Rightarrow> state \<Rightarrow> state" where
  "cleanupExpired now s =
     s\<lparr>transfers := map (\<lambda>t. if expired now t \<and> status t = ''active''
                               then t\<lparr>status := ''expired''\<rparr> else t) (transfers s)\<rparr>"

definition logDb_create :: "int \<Rightarrow> string \<Rightarrow> string \<Rightarrow> details \<Rightarrow> state \<Rightarrow> state" where
  "logDb_create now i act d s =
     s\<lparr>logs := logs s @
          [\<lparr>log_id = length (logs s) + 1, transfer_id = i, action = act, details = d,
            log_created_at = now\<rparr>]\<rparr>"

section \<open>routes/download.js\<close>

text \<open>
  A handler returns its HTTP response, the steps it took in order, and the new state.
  The steps are the progress events sent to the socket (\<open>io.emit\<close>, by event name and
  stage) and the calls into \<open>lib/encryption.js\<close>, \<open>lib/compression.js\<close> and the
  database, by name. An error response is its status code and its \<open>error\<close> string.
  The metadata responses carry the sizes as numbers (the source formats them with
  the floating-point \<open>formatBytes\<close>).
\<close>

datatype effect = Emit string string | Call string

record info =
  info_id :: string
  info_filename :: string
  originalSize :: nat
  compressedSize :: nat
  compressionRatio :: ratio
  hasPassword :: bool
  expiresAt :: "int option"
  downloadCount :: nat
  maxDownloads :: "jsnum option"
  createdAt :: int
  mimeType :: string

record uploaded =
  up_id :: string
  up_filename :: string
  up_originalSize :: nat
  up_compressedSize :: nat
  up_compressionRatio :: ratio
  up_expiresAt :: "int option"
  up_hasPassword :: bool
  decryptionKey :: string
  up_authTag :: string

datatype response =
    Error nat string
  | Info info
  | SendFile string string buffer
  | Stream string buffer
  | Uploaded uploaded
  | ChunkReceived nat jsnum
  | ChunkComplete string
  | Deleted

text \<open>\<open>transfer.max_downloads && transfer.download_count >= transfer.max_downloads\<close>:
  \<open>null\<close>, \<open>0\<close> and \<open>NaN\<close> are falsy, so none of them is a limit.\<close>

definition limit_reached :: "transfer \<Rightarrow> bool" where
  "limit_reached t =
     (truthy_num (max_downloads t) \<and>
      (case max_downloads t of Some (Num m) \<Rightarrow> m \<le> int (download_count t) | _ \<Rightarrow> False))"

text \<open>\<open>GET /api/download/:id/info\<close>\<close>

definition get_info :: "int \<Rightarrow> string \<Rightarrow> state \<Rightarrow> response \<times> effect list \<times> state" where
  "get_info now i s =
     (case getById s i of
        None \<Rightarrow> (Error 404 ''Transfer not found'', [], s)
      | Some t \<Rightarrow>
          if expired now t
          then (Error 410 ''Transfer has expired'', [Call ''updateStatus''],
                updateStatus i ''expired'' s)
          else if limit_reached t then (Error 410 ''Download limit reached'', [], s)
          else (Info \<lparr>info_id = id' t, info_filename = original_filename t,
                       originalSize = original_size t, compressedSize = compressed_size t,
                       compressionRatio = compression_ratio t,
                       hasPassword = truthy_str (password_hash t), expiresAt = expires_at t,
                       downloadCount = download_count t, maxDownloads = max_downloads t,
                       createdAt = created_at t, mimeType = mime_type t\<rparr>, [], s))"

text \<open>
  \<open>POST /api/download/:id\<close>. The handler is asynchronous: it runs up to
  \<open>await compression.decompressGzip(decryptedData)\<close>, where it gives the event loop
  back, and goes on when the decompression has finished. \<open>download_begin\<close> is the part
  before that point: it ends in a response, or in the transfer it read and the
  decrypted data. \<open>download_finish\<close> is the part after it. (With a password the handler
  also waits at \<open>await bcrypt.compare\<close>; the state is not touched around that point.)
\<close>

record download_body =
  password :: "string option"
  body_decryptionKey :: "string option"
  body_authTag :: "string option"

text \<open>The password check: \<open>None\<close> when the handler goes on, the response that ends
  it otherwise.\<close>

definition password_gate ::
  "lib \<Rightarrow> int \<Rightarrow> string \<Rightarrow> transfer \<Rightarrow> string option \<Rightarrow> state \<Rightarrow>
     (response \<times> effect list \<times> state) option" where
  "password_gate L now i t pw s =
     (case password_hash t of
        None \<Rightarrow> None
      | Some h \<Rightarrow>
          if h = [] then None
          else if \<not> truthy_str pw then Some (Error 401 ''Password required'', [], s)
          else if \<not> bcrypt_compare L (case pw of None \<Rightarrow> [] | Some p \<Rightarrow> p) h
          then Some (Error 401 ''Invalid password'', [Call ''logDb.create''],
                     logDb_create now i ''download_failed'' (Text ''Invalid password'') s)
          else None)"

definition download_begin ::
  "lib \<Rightarrow> int \<Rightarrow> string \<Rightarrow> download_body \<Rightarrow> state \<Rightarrow>
     (response + transfer \<times> buffer) \<times> effect list \<times> state" where
  "download_begin L now i body s =
     (case getById s i of
        None \<Rightarrow> (Inl (Error 404 ''Transfer not found''), [], s)
      | Some t \<Rightarrow>
          if status t \<noteq> ''active''
          then (Inl (Error 410 (''Transfer is '' @ status t)), [], s)
          else if expired now t
          then (Inl (Error 410 ''Transfer has expired''), [Call ''updateStatus''],
                updateStatus i ''expired'' s)
          else if limit_reached t
          then (Inl (Error 410 ''Download limit reached''), [], s)
          else
            (case password_gate L now i t (password body) s of
               Some (r, es, s') \<Rightarrow> (Inl r, es, s')
             | None \<Rightarrow>
                 (case (body_decryptionKey body, body_authTag body) of
                    (Some key, Some tag) \<Rightarrow>
                      if key = [] \<or> tag = []
                      then (Inl (Error 400 ''Decryption key and auth tag required''), [], s)
                      else
                        (case uploads s (filename t) of
                           None \<Rightarrow>
                             (Inl (Error 404 ''File not found on server''),
                              [Emit ''download-progress'' ''reading''], s)
                         | Some encryptedData \<Rightarrow>
                             if generateChecksum L encryptedData \<noteq> checksum t
                             then (Inl (Error 500 ''File integrity check failed''),
                                   [Emit ''download-progress'' ''reading'',
                                    Call ''generateChecksum''], s)
                             else
                               (case decrypt L encryptedData key (encryption_iv t) tag of
                                  None \<Rightarrow>
                                    (Inl (Error 400 ''Decryption failed''),
                                     [Emit ''download-progress'' ''reading'',
                                      Call ''generateChecksum'',
                                      Emit ''download-progress'' ''decrypting'',
                                      Call ''decrypt''], s)
                                | Some decryptedData \<Rightarrow>
                                    (Inr (t, decryptedData),
                                     [Emit ''download-progress'' ''reading'',
                                      Call ''generateChecksum'',
                                      Emit ''download-progress'' ''decrypting'',
                                      Call ''decrypt'',
                                      Emit ''download-progress'' ''decompressing'',
                                      Call ''decompressGzip''], s)))
                  | _ \<Rightarrow> (Inl (Error 400 ''Decryption key and auth tag required''), [], s))))"

definition download_finish ::
  "lib \<Rightarrow> int \<Rightarrow> string \<Rightarrow> transfer \<times> buffer \<Rightarrow> state \<Rightarrow> response \<times> effect list \<times> state" where
  "download_finish L now i pending s =
     (case pending of (t, decryptedData) \<Rightarrow>
        (case decompressGzip L decryptedData of
           None \<Rightarrow> (Error 500 ''Download failed'', [], s)
         | Some decompressedData \<Rightarrow>
             (SendFile (if mime_type t = [] then ''application/octet-stream'' else mime_type t)
                       (original_filename t) decompressedData,
              [Call ''updateDownloadCount'', Call ''logDb.create'',
               Emit ''download-progress'' ''complete''],
              logDb_create now i ''download'' (Size (length decompressedData))
                (updateDownloadCount i s))))"

text \<open>A request that nothing interleaves with.\<close>

definition download ::
  "lib \<Rightarrow> int \<Rightarrow> string \<Rightarrow> download_body \<Rightarrow> state \<Rightarrow> response \<times> effect list \<times> state" where
  "download L now i body s =
     (case download_begin L now i body s of
        (Inl r, es, s') \<Rightarrow> (r, es, s')
      | (Inr pending, es, s') \<Rightarrow>
          (case download_finish L now i pending s' of
             (r, es', s'') \<Rightarrow> (r, es @ es', s'')))"

text \<open>\<open>GET /api/download/:id/stream\<close>\<close>

definition stream :: "int \<Rightarrow> string \<Rightarrow> state \<Rightarrow> response \<times> effect list \<times> state" where
  "stream now i s =
     (case getById s i of
        None \<Rightarrow> (Error 404 ''Transfer not found or inactive'', [], s)
      | Some t \<Rightarrow>
          if status t \<noteq> ''active''
          then (Error 404 ''Transfer not found or inactive'', [], s)
          else if expired now t
          then (Error 410 ''Transfer has expired'', [Call ''updateStatus''],
                updateStatus i ''expired'' s)
          else
            (case uploads s (filename t) of
               None \<Rightarrow> (Error 404 ''File not found'', [], s)
             | Some encryptedData \<Rightarrow> (Stream (encryption_iv t) encryptedData, [], s)))"

section \<open>routes/upload.js\<close>

text \<open>
  \<open>POST /api/upload\<close>. The uploaded file is \<open>req.file\<close> (absent when the form has
  none); the form fields are strings or absent. The values of \<open>crypto.randomBytes\<close>
  are an input: the transfer id (already in its base64url form) and the bytes of IV,
  salt and key. The temporary files of the handler are not part of the state.
  \<open>setHours(getHours() + n)\<close> is taken as adding \<open>n\<close> hours to the clock.
\<close>

record upload_file =
  originalname :: string
  mimetype :: string
  file_data :: buffer

record upload_body =
  up_password :: "string option"
  expiresIn :: "string option"
  up_maxDownloads :: "string option"
  compressionLevel :: "string option"

record randoms =
  rnd_id :: string
  rnd_iv :: buffer
  rnd_salt :: buffer
  rnd_key :: buffer

text \<open>The expiry date: \<open>None\<close> when computing it throws (\<open>toISOString\<close> of an invalid
  date), otherwise \<open>null\<close> or the time.\<close>

definition expiry_of :: "int \<Rightarrow> string option \<Rightarrow> int option option" where
  "expiry_of now e =
     (if truthy_str e
      then (case parseInt (case e of None \<Rightarrow> [] | Some v \<Rightarrow> v) of
              NaN \<Rightarrow> None
            | Num n \<Rightarrow> Some (Some (now + n * 3600000)))
      else Some None)"

definition upload ::
  "lib \<Rightarrow> int \<Rightarrow> randoms \<Rightarrow> upload_file option \<Rightarrow> upload_body \<Rightarrow> state \<Rightarrow>
     response \<times> effect list \<times> state" where
  "upload L now rnd file body s =
     (case file of
        None \<Rightarrow> (Error 400 ''No file uploaded'', [], s)
      | Some f \<Rightarrow>
          let transferId = rnd_id rnd;
              originalSize = length (file_data f);
              iv = generateIV (rnd_iv rnd);
              salt = generateSalt (rnd_salt rnd);
              fileKey = generateKey (rnd_key rnd);
              algorithm = selectAlgorithm (Some (mimetype f));
              level = (case compressionLevel body of None \<Rightarrow> Num 6 | Some v \<Rightarrow> parseInt v)
          in
          (case compressFile L (file_data f) algorithm level of
             None \<Rightarrow>
               (Error 500 ''Upload failed'',
                [Emit ''upload-started'' [], Emit ''upload-progress'' ''compressing''], s)
           | Some (compressedData, compressionResult) \<Rightarrow>
               (case encrypt L compressedData fileKey iv of
                  None \<Rightarrow>
                    (Error 500 ''Upload failed'',
                     [Emit ''upload-started'' [], Emit ''upload-progress'' ''compressing'',
                      Emit ''upload-progress'' ''encrypting''], s)
                | Some (encrypted, authTag) \<Rightarrow>
                    let s1 = s\<lparr>uploads := (uploads s)(transferId @ ''.enc'' \<mapsto> encrypted)\<rparr>;
                        checksum' = generateChecksum L encrypted;
                        passwordHash =
                          (if truthy_str (up_password body)
                           then map_option (bcrypt_hash L) (up_password body) else None)
                    in
                    (case expiry_of now (expiresIn body) of
                       None \<Rightarrow>
                         (Error 500 ''Upload failed'',
                          [Emit ''upload-started'' [], Emit ''upload-progress'' ''compressing'',
                           Emit ''upload-progress'' ''encrypting''], s1)
                     | Some expiresAt' \<Rightarrow>
                         (Uploaded
                            \<lparr>up_id = transferId, up_filename = originalname f,
                             up_originalSize = originalSize,
                             up_compressedSize = length encrypted,
                             up_compressionRatio = compressionResult,
                             up_expiresAt = expiresAt',
                             up_hasPassword = truthy_str (up_password body),
                             decryptionKey = fileKey, up_authTag = authTag\<rparr>,
                          [Emit ''upload-started'' [], Emit ''upload-progress'' ''compressing'',
                           Emit ''upload-progress'' ''encrypting'',
                           Call ''transferDb.create'', Call ''logDb.create'',
                           Emit ''upload-progress'' ''complete''],
                          logDb_create now transferId ''upload''
                            (UploadSizes originalSize (length encrypted) compressionResult)
                            (transferDb_create now
                               \<lparr>id' = transferId, filename = transferId @ ''.enc'',
                                original_filename = originalname f,
                                original_size = originalSize,
                                compressed_size = length encrypted,
                                compression_ratio = compressionResult,
                                encryption_iv = iv, encryption_salt = salt,
                                password_hash = passwordHash, mime_type = mimetype f,
                                expires_at = expiresAt',
                                max_downloads =
                                  (if truthy_str (up_maxDownloads body)
                                   then map_option parseInt (up_maxDownloads body) else None),
                                checksum = checksum', created_at = now,
                                download_count = 0, status = ''active''\<rparr>
                               s1))))))"

text \<open>
  \<open>POST /api/upload/chunk\<close>. The chunk is stored under the name
  \<open>chunk-<chunkIndex>\<close>, with the index as the request spells it, in the directory of
  the transfer id; when the directory holds \<open>parseInt(totalChunks)\<close> files, the loop
  reads \<open>chunk-0\<close>, \<open>chunk-1\<close>, ... in this order, appends each to the merged file and
  unlinks it. A chunk that is missing makes \<open>readFileSync\<close> throw, and a directory
  that is not empty after the loop makes \<open>rmdirSync\<close> throw: both end in the 500
  response. (The progress event carries a floating-point percentage, which is left
  out; ids and indexes are taken to be plain file names.)
\<close>

record chunk_body =
  ch_transferId :: "string option"
  chunkIndex :: "string option"
  totalChunks :: "string option"

definition template_str :: "string option \<Rightarrow> string" where
  "template_str v = (case v of None \<Rightarrow> ''undefined'' | Some x \<Rightarrow> x)"

function merge_loop ::
  "nat \<Rightarrow> nat \<Rightarrow> (string \<times> buffer) list \<Rightarrow> buffer \<Rightarrow> bool \<times> (string \<times> buffer) list \<times> buffer" where
  "merge_loop i totalCount dir out =
     (if i < totalCount
      then (case map_of dir (''chunk-'' @ dec i) of
              None \<Rightarrow> (False, dir, out)
            | Some chunkData \<Rightarrow>
                merge_loop (i + 1) totalCount (AList.delete (''chunk-'' @ dec i) dir) (out @ chunkData))
      else (True, dir, out))"
  by pat_completeness auto
termination
  by (relation "measure (\<lambda>(i, totalCount, dir, out). totalCount - i)") auto

declare merge_loop.simps [simp del]

definition chunk_upload ::
  "buffer option \<Rightarrow> chunk_body \<Rightarrow> state \<Rightarrow> response \<times> effect list \<times> state" where
  "chunk_upload file body s =
     (case file of
        None \<Rightarrow> (Error 400 ''No chunk data'', [], s)
      | Some chunk \<Rightarrow>
          (case ch_transferId body of
             None \<Rightarrow> (Error 500 ''Chunk upload failed'', [], s)
           | Some transferId \<Rightarrow>
               let dir = AList.update (''chunk-'' @ template_str (chunkIndex body)) chunk
                           (case chunks s transferId of None \<Rightarrow> [] | Some d \<Rightarrow> d);
                   s1 = s\<lparr>chunks := (chunks s)(transferId \<mapsto> dir)\<rparr>;
                   totalCount = parseInt (template_str (totalChunks body))
               in
               if Num (int (length dir)) = totalCount
               then
                 (case merge_loop 0 (length dir) dir [] of
                    (finished, dir', merged) \<Rightarrow>
                      if finished \<and> dir' = []
                      then (ChunkComplete (transferId @ ''-merged''),
                            [Emit ''upload-progress'' ''uploading''],
                            s1\<lparr>chunks := (chunks s1)(transferId := None),
                               temp := (temp s1)(transferId @ ''-merged'' \<mapsto> merged)\<rparr>)
                      else (Error 500 ''Chunk upload failed'',
                            [Emit ''upload-progress'' ''uploading''],
                            s1\<lparr>chunks := (chunks s1)(transferId \<mapsto> dir'),
                               temp := (temp s1)(transferId @ ''-merged'' \<mapsto> merged)\<rparr>))
               else (ChunkReceived (length dir) totalCount,
                     [Emit ''upload-progress'' ''uploading''], s1)))"

text \<open>A sequence of chunk requests, one after the other.\<close>

fun chunk_uploads ::
  "(buffer option \<times> chunk_body) list \<Rightarrow> state \<Rightarrow> response list \<times> state" where
  "chunk_uploads [] s = ([], s)"
| "chunk_uploads ((file, body) # reqs) s =
     (case chunk_upload file body s of
        (r, es, s') \<Rightarrow> (case chunk_uploads reqs s' of (rs, s'') \<Rightarrow> (r # rs, s'')))"

section \<open>routes/transfers.js\<close>

text \<open>\<open>GET /api/transfers\<close> cleans up the expired transfers and lists the active ones,
  newest first (\<open>limit\<close> and \<open>offset\<close> as the numbers parsed from the query).\<close>

datatype listing = Listing "transfer list"

definition getAll :: "nat \<Rightarrow> nat \<Rightarrow> state \<Rightarrow> transfer list" where
  "getAll limit offset s =
     take limit (drop offset
       (sort_key (\<lambda>t. - created_at t) (filter (\<lambda>t. status t = ''active'') (transfers s))))"

definition list_transfers :: "int \<Rightarrow> nat \<Rightarrow> nat \<Rightarrow> state \<Rightarrow> listing \<times> state" where
  "list_transfers now limit offset s =
     (let s' = cleanupExpired now s in (Listing (getAll limit offset s'), s'))"

text \<open>\<open>DELETE /api/transfers/:id\<close>\<close>

definition delete_transfer :: "int \<Rightarrow> string \<Rightarrow> state \<Rightarrow> response \<times> effect list \<times> state" where
  "delete_transfer now i s =
     (case getById s i of
        None \<Rightarrow> (Error 404 ''Transfer not found'', [], s)
      | Some t \<Rightarrow>
          (Deleted, [Call ''transferDb.delete'', Call ''logDb.create''],
           logDb_create now i ''deleted'' NoDetails
             (transferDb_delete i (s\<lparr>uploads := (uploads s)(filename t := None)\<rparr>))))"

section \<open>The server as a state machine\<close>

text \<open>The requests of the API, and the state after the server has handled one, with
  no other request in between.\<close>

datatype request =
    Upload randoms "upload_file option" upload_body
  | ChunkUpload "buffer option" chunk_body
  | GetInfo string
  | Download string download_body
  | StreamReq string
  | ListTransfers nat nat
  | DeleteTransfer string

fun handle :: "lib \<Rightarrow> int \<Rightarrow> request \<Rightarrow> state \<Rightarrow> state" where
  "handle L now (Upload rnd file body) s = snd (snd (upload L now rnd file body s))"
| "handle L now (ChunkUpload file body) s = snd (snd (chunk_upload file body s))"
| "handle L now (GetInfo i) s = snd (snd (get_info now i s))"
| "handle L now (Download i body) s = snd (snd (download L now i body s))"
| "handle L now (StreamReq i) s = snd (snd (stream now i s))"
| "handle L now (ListTransfers limit offset) s = snd (list_transfers now limit offset s)"
| "handle L now (DeleteTransfer i) s = snd (snd (delete_transfer now i s))"

text \<open>
  Two downloads of the same transfer that overlap: the second request arrives while
  the first waits for its decompression, so the order of the four parts is begin of
  the first, begin of the second, finish of the first, finish of the second. The
  result is the two responses and the final state.
\<close>

definition overlapped ::
  "lib \<Rightarrow> int \<Rightarrow> string \<Rightarrow> download_body \<Rightarrow> download_body \<Rightarrow> state \<Rightarrow>
     response \<times> response \<times> state" where
  "overlapped L now i a b s =
     (case download_begin L now i a s of
        (Inl ra, ea, s1) \<Rightarrow>
          (case download L now i b s1 of (rb, eb, s2) \<Rightarrow> (ra, rb, s2))
      | (Inr pa, ea, s1) \<Rightarrow>
          (case download_begin L now i b s1 of
             (Inl rb, eb, s2) \<Rightarrow>
               (case download_finish L now i pa s2 of (ra, ea', s3) \<Rightarrow> (ra, rb, s3))
           | (Inr pb, eb, s2) \<Rightarrow>
               (case download_finish L now i pa s2 of
                  (ra, ea', s3) \<Rightarrow>
                    (case download_finish L now i pb s3 of
                       (rb, eb', s4) \<Rightarrow> (ra, rb, s4)))))"

section \<open>A small instance of the libraries\<close>

text \<open>
  To run the model on concrete inputs the library record needs an instance. This one
  is not zlib or AES: gzip output is the input behind the two magic bytes of the gzip
  format, Brotli output is the input behind one header byte, sealing adds the first
  key byte to every byte and uses the first half of the key as the tag, the digest is
  the byte sum and the length. It keeps the promises of \<open>lib_ok\<close>, and like the real
  formats its gunzip rejects what its Brotli writes.
\<close>

definition ref_gunzip :: "buffer \<Rightarrow> buffer option" where
  "ref_gunzip z = (case z of a # b # r \<Rightarrow> if a = 0x1f \<and> b = 0x8b then Some r else None
                            | _ \<Rightarrow> None)"

definition ref_unbrotli :: "buffer \<Rightarrow> buffer option" where
  "ref_unbrotli z = (case z of a # r \<Rightarrow> if a = 0x0b then Some r else None | _ \<Rightarrow> None)"

definition ref_seal :: "buffer \<Rightarrow> buffer \<Rightarrow> buffer \<Rightarrow> (buffer \<times> buffer) option" where
  "ref_seal k iv p =
     (if length k = 32 \<and> iv \<noteq> [] then Some (map (\<lambda>x. x + hd k) p, take 16 k) else None)"

definition ref_open :: "buffer \<Rightarrow> buffer \<Rightarrow> buffer \<Rightarrow> buffer \<Rightarrow> buffer option" where
  "ref_open k iv t c =
     (if length k = 32 \<and> iv \<noteq> [] \<and> t = take 16 k then Some (map (\<lambda>x. x - hd k) c) else None)"

definition ref_lib :: lib where
  "ref_lib =
     \<lparr>zlib_gzip = (\<lambda>l b. if level_ok l then Some (0x1f # 0x8b # b) else None),
      zlib_gunzip = ref_gunzip,
      zlib_brotli = (\<lambda>l b. if level_ok l then Some (0x0b # b) else None),
      zlib_unbrotli = ref_unbrotli,
      aes_gcm_seal = ref_seal,
      aes_gcm_open = ref_open,
      sha256 = (\<lambda>b. [sum_list b, of_nat (length b)]),
      bcrypt_hash = (\<lambda>pw. ''$2a$10$'' @ pw),
      bcrypt_compare = (\<lambda>pw h. h = ''$2a$10$'' @ pw)\<rparr>"


text \<open>The same instance with an opening that, like \<open>createDecipheriv\<close> without the
  option \<open>authTagLength\<close>, takes a tag of any length that GCM allows and compares it
  with the leading part of the full tag.\<close>

definition trunc_lib :: lib where
  "trunc_lib =
     ref_lib\<lparr>aes_gcm_open :=
       (\<lambda>k iv t c. if length k = 32 \<and> iv \<noteq> [] \<and> length t \<in> {4, 8, 12, 13, 14, 15, 16} \<and>
                       t = take (length t) (take 16 k)
                    then Some (map (\<lambda>x. x - hd k) c) else None)\<rparr>"

text \<open>The empty server.\<close>

definition empty_state :: state where
  "empty_state = \<lparr>transfers = [], logs = [], uploads = (\<lambda>_. None), chunks = (\<lambda>_. None),
                   temp = (\<lambda>_. None)\<rparr>"

text \<open>Sample inputs: an upload on the empty server at time 1000, and the download
  request that carries the key and tag this upload returned.\<close>

definition demo_rnd :: randoms where
  "demo_rnd = \<lparr>rnd_id = ''T1'', rnd_iv = replicate 16 7, rnd_salt = replicate 32 9,
                rnd_key = replicate 32 5\<rparr>"

definition demo_file :: upload_file where
  "demo_file = \<lparr>originalname = ''a.bin'', mimetype = ''image/png'', file_data = [1, 2, 3]\<rparr>"

definition demo_text :: upload_file where
  "demo_text = \<lparr>originalname = ''a.txt'', mimetype = ''text/plain'', file_data = [1, 2, 3]\<rparr>"

definition demo_form :: "string option \<Rightarrow> string option \<Rightarrow> string option \<Rightarrow> upload_body" where
  "demo_form pw hours limit =
     \<lparr>up_password = pw, expiresIn = hours, up_maxDownloads = limit,
      compressionLevel = Some ''6''\<rparr>"

definition after_upload :: "upload_file \<Rightarrow> upload_body \<Rightarrow> state" where
  "after_upload f b = snd (snd (upload ref_lib 1000 demo_rnd (Some f) b empty_state))"

definition demo_key :: string where
  "demo_key = ''0505050505050505050505050505050505050505050505050505050505050505''"

definition demo_tag :: string where
  "demo_tag = ''05050505050505050505050505050505''"

definition demo_request :: "string option \<Rightarrow> download_body" where
  "demo_request pw =
     \<lparr>password = pw, body_decryptionKey = Some demo_key, body_authTag = Some demo_tag\<rparr>"

text \<open>A request with the key of another transfer.\<close>

definition wrong_key_request :: "string option \<Rightarrow> download_body" where
  "wrong_key_request pw =
     \<lparr>password = pw,
      body_decryptionKey =
        Some ''0606060606060606060606060606060606060606060606060606060606060606'',
      body_authTag = Some demo_tag\<rparr>"

text \<open>Requests with the right key and another tag, with a key of two bytes, and with
  the right key and tag followed by characters that are not hexadecimal.\<close>

definition wrong_tag_request :: "string option \<Rightarrow> download_body" where
  "wrong_tag_request pw =
     \<lparr>password = pw, body_decryptionKey = Some demo_key,
      body_authTag = Some ''06060606060606060606060606060606''\<rparr>"

definition short_key_request :: "string option \<Rightarrow> download_body" where
  "short_key_request pw =
     \<lparr>password = pw, body_decryptionKey = Some ''0505'', body_authTag = Some demo_tag\<rparr>"

definition junk_request :: "string option \<Rightarrow> download_body" where
  "junk_request pw =
     \<lparr>password = pw, body_decryptionKey = Some (demo_key @ ''zz''),
      body_authTag = Some (demo_tag @ ''!'')\<rparr>"

text \<open>A request with the right key and the first four bytes of the tag.\<close>

definition short_tag_request :: "string option \<Rightarrow> download_body" where
  "short_tag_request pw =
     \<lparr>password = pw, body_decryptionKey = Some demo_key, body_authTag = Some ''05050505''\<rparr>"

text \<open>The record and the artifact that this upload stores, with the fields that
  vary between the examples as parameters: password hash, expiry, limit and download
  count.\<close>

definition demo_transfer :: "string option \<Rightarrow> int option \<Rightarrow> jsnum option \<Rightarrow> nat \<Rightarrow> transfer" where
  "demo_transfer hash expiry limit n =
     \<lparr>id' = ''T1'', filename = ''T1.enc'', original_filename = ''a.bin'',
      original_size = 3, compressed_size = 5, compression_ratio = Percent 5 3,
      encryption_iv = ''07070707070707070707070707070707'',
      encryption_salt = ''0909090909090909090909090909090909090909090909090909090909090909'',
      password_hash = hash, mime_type = ''image/png'', expires_at = expiry,
      max_downloads = limit, checksum = ''c905'', created_at = 1000,
      download_count = n, status = ''active''\<rparr>"

definition demo_state :: "transfer \<Rightarrow> state" where
  "demo_state t =
     \<lparr>transfers = [t], logs = [],
      uploads = (\<lambda>_. None)(''T1.enc'' \<mapsto> [0x24, 0x90, 6, 7, 8]),
      chunks = (\<lambda>_. None), temp = (\<lambda>_. None)\<rparr>"

text \<open>The same server after the stored artifact was damaged on disk.\<close>

definition damaged :: "state \<Rightarrow> state" where
  "damaged s = s\<lparr>uploads := (uploads s)(''T1.enc'' \<mapsto> [0])\<rparr>"

section \<open>Notions the claims are stated with\<close>

text \<open>The two responses that tell the caller that the transfer has expired: the one of
  the expiry check, and the one of the status check on a transfer already marked
  \<open>expired\<close>.\<close>

definition expired_response :: "response \<Rightarrow> bool" where
  "expired_response r \<longleftrightarrow>
     r = Error 410 ''Transfer has expired'' \<or> r = Error 410 ''Transfer is expired''"

text \<open>The response that carries file bytes.\<close>

fun is_file :: "response \<Rightarrow> bool" where
  "is_file (SendFile m f d) = True"
| "is_file _ = False"

text \<open>The response that carries the metadata.\<close>

fun is_info :: "response \<Rightarrow> bool" where
  "is_info (Info x) = True"
| "is_info _ = False"

text \<open>The gates of \<open>POST /api/download/:id\<close> before the pipeline: status, expiry and
  limit; and the password gate, passed when no hash is stored or the password
  matches.\<close>

definition open_for_download :: "int \<Rightarrow> transfer \<Rightarrow> bool" where
  "open_for_download now t \<longleftrightarrow> status t = ''active'' \<and> \<not> expired now t \<and> \<not> limit_reached t"

definition password_ok :: "lib \<Rightarrow> transfer \<Rightarrow> string option \<Rightarrow> bool" where
  "password_ok L t pw =
     (case password_hash t of
        None \<Rightarrow> True
      | Some h \<Rightarrow> h = [] \<or> (case pw of None \<Rightarrow> False | Some p \<Rightarrow> p \<noteq> [] \<and> bcrypt_compare L p h))"

text \<open>A record respects its limit when the limit is a positive number and the count
  is not above it; a record without such a limit respects it trivially.\<close>

definition within_limit :: "transfer \<Rightarrow> bool" where
  "within_limit t =
     (case max_downloads t of
        Some (Num m) \<Rightarrow> 1 \<le> m \<longrightarrow> int (download_count t) \<le> m
      | _ \<Rightarrow> True)"

definition quota_inv :: "state \<Rightarrow> bool" where
  "quota_inv s \<longleftrightarrow> (\<forall>t \<in> set (transfers s). within_limit t)"

text \<open>The statuses the source writes.\<close>

definition status_inv :: "state \<Rightarrow> bool" where
  "status_inv s \<longleftrightarrow> (\<forall>t \<in> set (transfers s). status t = ''active'' \<or> status t = ''expired'')"

text \<open>
  For the chunked upload: the request that carries chunk \<open>i\<close> of the chunks \<open>cs\<close> of
  a transfer (index and total in decimal), the content of a chunk directory, and the
  directory after the chunks with the indexes \<open>q\<close> have arrived in this order.
\<close>

definition chunk_request :: "string \<Rightarrow> buffer list \<Rightarrow> nat \<Rightarrow> buffer option \<times> chunk_body" where
  "chunk_request tid cs i =
     (Some (cs ! i),
      \<lparr>ch_transferId = Some tid, chunkIndex = Some (dec i),
       totalChunks = Some (dec (length cs))\<rparr>)"

definition chunk_dir :: "state \<Rightarrow> string \<Rightarrow> (string \<times> buffer) list" where
  "chunk_dir s tid = (case chunks s tid of None \<Rightarrow> [] | Some d \<Rightarrow> d)"

definition received :: "buffer list \<Rightarrow> nat list \<Rightarrow> (string \<times> buffer) list" where
  "received cs q = foldl (\<lambda>d i. AList.update (''chunk-'' @ dec i) (cs ! i) d) [] q"

definition is_dec_digit :: "char \<Rightarrow> bool" where
  "is_dec_digit c \<longleftrightarrow> c \<in> set ''0123456789''"

section \<open>The hex encoding is invertible\<close>

lemma hex_val_hex_digit:
  assumes "n < 16"
  shows "hex_val (hex_digit n) = Some n"
proof -
  from assms have "n \<in> set [0 ..< 16]" by simp
  also have "[0 ..< 16] = [0, 1, 2, 3, 4, 5, 6, 7, 8, 9, 10, 11, 12, 13, 14, 15 :: nat]"
    by (simp add: upt_rec)
  finally show ?thesis
    by (auto simp: hex_val_def hex_digit_def)
qed

lemma byte_of_nibbles: "of_nat (16 * (unat b div 16) + unat b mod 16) = (b :: byte)"
proof -
  have "16 * (unat b div 16) + unat b mod 16 = unat b" by simp
  then have "(of_nat (16 * (unat b div 16) + unat b mod 16) :: byte) = of_nat (unat b)"
    by (rule arg_cong)
  then show ?thesis by simp
qed

lemma unat_byte_div16: "unat (b :: byte) div 16 < 16"
proof -
  have "unat b < 256" using unsigned_less [of b, where 'a = nat] by simp
  then show ?thesis by simp
qed

lemma from_hex_append_byte:
  "from_hex (hex_digit (unat b div 16) # hex_digit (unat b mod 16) # s) = b # from_hex s"
proof -
  have hi: "hex_val (hex_digit (unat b div 16)) = Some (unat b div 16)"
    by (rule hex_val_hex_digit [OF unat_byte_div16])
  have lo: "hex_val (hex_digit (unat b mod 16)) = Some (unat b mod 16)"
    by (rule hex_val_hex_digit) simp
  show ?thesis
    by (simp only: from_hex.simps hi lo option.case byte_of_nibbles)
qed

lemma from_hex_to_hex: "from_hex (to_hex bs) = bs"
proof (induction bs)
  case Nil
  show ?case by (simp add: to_hex_def)
next
  case (Cons b bs)
  have "to_hex (b # bs) = hex_digit (unat b div 16) # hex_digit (unat b mod 16) # to_hex bs"
    by (simp add: to_hex_def)
  then show ?case by (simp only: from_hex_append_byte Cons.IH)
qed

section \<open>The instance keeps the libraries' promises\<close>

lemma lib_ok_ref_lib: "lib_ok ref_lib"
  unfolding lib_ok_def
proof (intro conjI allI impI)
  fix l b assume "level_ok l"
  then show "\<exists>z. zlib_gzip ref_lib l b = Some z \<and> zlib_gunzip ref_lib z = Some b"
    by (simp add: ref_lib_def ref_gunzip_def)
next
  fix l b assume "level_ok l"
  then show "\<exists>z. zlib_brotli ref_lib l b = Some z \<and> zlib_unbrotli ref_lib z = Some b"
    by (simp add: ref_lib_def ref_unbrotli_def)
next
  fix k iv p :: buffer assume "length k = 32 \<and> iv \<noteq> []"
  then show "\<exists>c t. aes_gcm_seal ref_lib k iv p = Some (c, t) \<and> length c = length p \<and>
               length t = 16 \<and> aes_gcm_open ref_lib k iv t c = Some p"
    by (simp add: ref_lib_def ref_seal_def ref_open_def comp_def)
next
  fix pw show "bcrypt_compare ref_lib pw (bcrypt_hash ref_lib pw)"
    by (simp add: ref_lib_def)
qed

lemma length_to_hex: "length (to_hex bs) = 2 * length bs"
  by (induction bs) (simp_all add: to_hex_def)

lemma compress_decompress:
  assumes "lib_ok L" "level_ok level"
  shows "\<exists>z. compress L a level B = Some z \<and> decompress L a z = Some B"
  using assms unfolding lib_ok_def
  by (cases a) (simp_all add: compress_def decompress_def compressGzip_def decompressGzip_def
      compressBrotli_def decompressBrotli_def)

lemma encrypt_decrypt:
  assumes "lib_ok L" "length rk = 32" "ri \<noteq> []"
  shows "\<exists>c tag. encrypt L z (to_hex rk) (to_hex ri) = Some (c, tag) \<and> length c = length z \<and>
           tag \<noteq> [] \<and> decrypt L c (to_hex rk) (to_hex ri) tag = Some z"
proof -
  from assms obtain c t where
    "aes_gcm_seal L rk ri z = Some (c, t)" "length c = length z" "length t = 16"
    "aes_gcm_open L rk ri t c = Some z"
    unfolding lib_ok_def by blast
  moreover from this(3) have "to_hex t \<noteq> []"
    using length_to_hex [of t] by auto
  ultimately show ?thesis
    by (simp add: encrypt_def decrypt_def from_hex_to_hex)
qed

section \<open>Round trip of compression and encryption\<close>

text \<open>
  Claim C2. For every byte sequence \<open>B\<close>, both algorithms, every level from 1 to 9 and
  every key and IV the generators produce (the hex form of 32 and of 16 random bytes):
  compressing \<open>B\<close>, encrypting the result, decrypting the ciphertext with the same key
  and IV and the tag that \<open>encrypt\<close> returned, and decompressing with the same
  algorithm gives exactly \<open>B\<close>, and none of the four steps throws. The libraries are
  assumed to keep their promises (\<open>lib_ok\<close>); what the code adds, the hex coding of key,
  IV and tag, is inverted exactly.
\<close>

theorem roundtrip:
  assumes "lib_ok L" and "level_ok level"
    and "length rk = KEY_LENGTH" and "length ri = IV_LENGTH"
  shows "\<exists>z c tag. compress L a level B = Some z \<and>
           encrypt L z (generateKey rk) (generateIV ri) = Some (c, tag) \<and>
           (\<exists>p. decrypt L c (generateKey rk) (generateIV ri) tag = Some p \<and>
                decompress L a p = Some B)"
proof -
  from compress_decompress [OF assms(1,2)] obtain z where
    z: "compress L a level B = Some z" "decompress L a z = Some B" by blast
  have "length rk = 32" "ri \<noteq> []"
    using assms(3,4) by (auto simp: KEY_LENGTH_def IV_LENGTH_def)
  from encrypt_decrypt [OF assms(1) this] obtain c tag where
    "encrypt L z (to_hex rk) (to_hex ri) = Some (c, tag)"
    "decrypt L c (to_hex rk) (to_hex ri) tag = Some z" by blast
  with z show ?thesis by (simp add: generateKey_def generateIV_def)
qed

theorem roundtrip_witness:
  "lib_ok ref_lib \<and> level_ok (Num 6) \<and> length (replicate 32 5 :: buffer) = KEY_LENGTH \<and>
   length (replicate 16 7 :: buffer) = IV_LENGTH \<and>
   (\<exists>z c tag. compress ref_lib BROTLI (Num 6) [1, 2, 3] = Some z \<and>
      encrypt ref_lib z (generateKey (replicate 32 5)) (generateIV (replicate 16 7)) = Some (c, tag) \<and>
      (\<exists>p. decrypt ref_lib c (generateKey (replicate 32 5)) (generateIV (replicate 16 7)) tag = Some p \<and>
           decompress ref_lib BROTLI p = Some [1, 2, 3]))"
proof -
  have l: "level_ok (Num 6)" by (simp add: level_ok_def)
  have k: "length (replicate 32 5 :: buffer) = KEY_LENGTH" by (simp add: KEY_LENGTH_def)
  have v: "length (replicate 16 7 :: buffer) = IV_LENGTH" by (simp add: IV_LENGTH_def)
  from roundtrip [OF lib_ok_ref_lib l k v, of BROTLI "[1, 2, 3]"] lib_ok_ref_lib l k v
  show ?thesis by simp
qed


section \<open>Evaluating the model on the sample inputs\<close>

lemmas demo_defs = demo_state_def demo_transfer_def demo_request_def wrong_key_request_def
  wrong_tag_request_def short_key_request_def junk_request_def short_tag_request_def
  demo_key_def demo_tag_def damaged_def getById_def

lemmas ref_lib_defs = ref_lib_def ref_gunzip_def ref_unbrotli_def ref_seal_def ref_open_def
  decrypt_def encrypt_def generateChecksum_def decompressGzip_def hex_val_def to_hex_def
  hex_digit_def level_ok_def

lemmas download_defs = download_def download_begin_def download_finish_def password_gate_def
  expired_def limit_reached_def updateDownloadCount_def logDb_create_def

lemma upload_demo:
  "transfers (after_upload demo_file (demo_form None None None)) = [demo_transfer None None None 0] \<and>
   uploads (after_upload demo_file (demo_form None None None)) ''T1.enc'' =
     uploads (demo_state (demo_transfer None None None 0)) ''T1.enc''"
  by code_simp

section \<open>Looking up and updating a transfer\<close>

lemma find_update_first:
  assumes "\<And>x. P (f x) = P x"
  shows "find P (update_first P f xs) = map_option f (find P xs)"
  by (induction xs) (simp_all add: assms)

lemma map_update_first:
  assumes "\<And>x. g (f x) = g x"
  shows "map g (update_first P f xs) = map g xs"
  by (induction xs) (simp_all add: assms)

lemma getById_updateStatus:
  "getById (updateStatus i st s) i = map_option (\<lambda>t. t\<lparr>status := st\<rparr>) (getById s i)"
  by (simp add: getById_def updateStatus_def find_update_first)

lemma getById_updateDownloadCount:
  "getById (updateDownloadCount i s) i =
     map_option (\<lambda>t. t\<lparr>download_count := download_count t + 1\<rparr>) (getById s i)"
  by (simp add: getById_def updateDownloadCount_def find_update_first)

lemma download_counts_updateStatus:
  "map download_count (transfers (updateStatus i st s)) = map download_count (transfers s)"
  by (simp add: updateStatus_def map_update_first)

lemma logs_updateStatus: "logs (updateStatus i st s) = logs s"
  by (simp add: updateStatus_def)

section \<open>The download handler, stage by stage\<close>

lemma password_gate_None: "password_gate L now i t pw s = None \<longleftrightarrow> password_ok L t pw"
  by (auto simp: password_gate_def password_ok_def split: option.splits)

lemma download_begin_pipeline:
  assumes "getById s i = Some t" and "open_for_download now t" and "password_ok L t (password body)"
    and "body_decryptionKey body = Some key" and "body_authTag body = Some tag"
    and "key \<noteq> []" and "tag \<noteq> []" and "uploads s (filename t) = Some data"
  shows "download_begin L now i body s =
     (if generateChecksum L data \<noteq> checksum t
      then (Inl (Error 500 ''File integrity check failed''),
            [Emit ''download-progress'' ''reading'', Call ''generateChecksum''], s)
      else case decrypt L data key (encryption_iv t) tag of
             None \<Rightarrow> (Inl (Error 400 ''Decryption failed''),
                      [Emit ''download-progress'' ''reading'', Call ''generateChecksum'',
                       Emit ''download-progress'' ''decrypting'', Call ''decrypt''], s)
           | Some p \<Rightarrow> (Inr (t, p),
                      [Emit ''download-progress'' ''reading'', Call ''generateChecksum'',
                       Emit ''download-progress'' ''decrypting'', Call ''decrypt'',
                       Emit ''download-progress'' ''decompressing'', Call ''decompressGzip''], s))"
proof -
  have pg: "password_gate L now i t (password body) s = None"
    using assms(3) by (simp add: password_gate_None)
  show ?thesis
    using assms(1,2,4-8)
    by (simp add: download_begin_def open_for_download_def pg split: option.splits)
qed

lemma download_Inl:
  "download_begin L now i body s = (Inl r, es, s') \<Longrightarrow> download L now i body s = (r, es, s')"
  by (simp add: download_def)

lemma get_info_expired:
  assumes "getById s i = Some t" and "expired now t"
  shows "get_info now i s = (Error 410 ''Transfer has expired'', [Call ''updateStatus''], updateStatus i ''expired'' s)"
  using assms by (simp add: get_info_def)

lemma download_begin_expired:
  assumes "getById s i = Some t" and "expired now t"
  shows "download_begin L now i body s =
     (if status t = ''active''
      then (Inl (Error 410 ''Transfer has expired''), [Call ''updateStatus''], updateStatus i ''expired'' s)
      else (Inl (Error 410 (''Transfer is '' @ status t)), [], s))"
  using assms by (simp add: download_begin_def)

lemma download_expired:
  assumes "getById s i = Some t" and "expired now t"
  shows "download L now i body s =
     (if status t = ''active''
      then (Error 410 ''Transfer has expired'', [Call ''updateStatus''], updateStatus i ''expired'' s)
      else (Error 410 (''Transfer is '' @ status t), [], s))"
  by (simp add: download_def download_begin_expired [OF assms])

lemma download_begin_decrypt_called:
  assumes "download_begin L now i body s = (x, es, s')" and "Call ''decrypt'' \<in> set es"
  shows "\<exists>t data. getById s i = Some t \<and> uploads s (filename t) = Some data \<and>
           generateChecksum L data = checksum t"
  using assms unfolding download_begin_def password_gate_def
  by (auto split: option.splits if_splits prod.splits)

lemma download_finish_effects:
  assumes "download_finish L now i p s = (r, es, s')"
  shows "Call ''decrypt'' \<notin> set es"
  using assms unfolding download_finish_def
  by (auto split: option.splits prod.splits)

lemma download_begin_mismatch:
  assumes "getById s i = Some t" and "uploads s (filename t) = Some data"
    and "generateChecksum L data \<noteq> checksum t"
  shows "\<exists>r es s1. download_begin L now i body s = (Inl r, es, s1)
           \<and> \<not> is_file r \<and> Call ''decrypt'' \<notin> set es \<and>
           (\<forall>g. download_begin (L\<lparr>aes_gcm_open := g\<rparr>) now i body s = (Inl r, es, s1))"
  using assms unfolding download_begin_def password_gate_def generateChecksum_def
  by (auto split: option.splits if_splits prod.splits)

lemma download_begin_needs_decrypt:
  assumes "download_begin L now i body s = (Inr (t', p), es, s')"
  shows "\<exists>t data key tag. getById s i = Some t \<and> uploads s (filename t) = Some data \<and>
           body_decryptionKey body = Some key \<and> body_authTag body = Some tag \<and>
           decrypt L data key (encryption_iv t) tag = Some p"
  using assms unfolding download_begin_def password_gate_def
  by (auto split: option.splits if_splits prod.splits)

lemma download_finish_file:
  assumes "download_finish L now i (t, p) s = (r, es, s')" and "is_file r"
  shows "\<exists>d. decompressGzip L p = Some d \<and>
           r = SendFile (if mime_type t = [] then ''application/octet-stream'' else mime_type t)
                 (original_filename t) d"
  using assms unfolding download_finish_def
  by (auto split: option.splits)


section \<open>Expiry\<close>

text \<open>
  Claim C4. A transfer whose \<open>expires_at\<close> is set and in the past: \<open>get_info\<close> answers
  410 \<open>Transfer has expired\<close>; \<open>download\<close> answers 410 too, with \<open>Transfer has expired\<close>
  when the record was still \<open>active\<close> and with \<open>Transfer is expired\<close> when an earlier
  read had already marked it. After either call the record's status is \<open>expired\<close>
  (the transition happens in the read itself), no download count has changed and no
  log entry was written. The status of a record is \<open>active\<close> or \<open>expired\<close>: the
  source writes no other value.
\<close>

theorem expired_transfer_rejected:
  assumes "getById s i = Some t" and "expires_at t = Some e" and "e < now"
    and "status t = ''active'' \<or> status t = ''expired''"
  shows "fst (get_info now i s) = Error 410 ''Transfer has expired'' \<and>
         expired_response (fst (download L now i body s)) \<and>
         (\<forall>s' \<in> {snd (snd (get_info now i s)), snd (snd (download L now i body s))}.
            map_option status (getById s' i) = Some ''expired'' \<and>
            map download_count (transfers s') = map download_count (transfers s) \<and>
            logs s' = logs s)"
proof -
  let ?ok = "\<lambda>s'. map_option status (getById s' i) = Some ''expired'' \<and>
            map download_count (transfers s') = map download_count (transfers s) \<and>
            logs s' = logs s"
  have ex: "expired now t" using assms(2,3) by (simp add: expired_def)
  note gi = get_info_expired [OF assms(1) ex]
  note dl = download_expired [OF assms(1) ex, of L body]
  have upd: "?ok (updateStatus i ''expired'' s)"
    by (simp add: getById_updateStatus assms(1) download_counts_updateStatus logs_updateStatus)
  have info: "fst (get_info now i s) = Error 410 ''Transfer has expired''"
    and info_state: "?ok (snd (snd (get_info now i s)))"
    using upd by (simp_all only: gi fst_conv snd_conv)
  have "expired_response (fst (download L now i body s)) \<and> ?ok (snd (snd (download L now i body s)))"
  proof (cases "status t = ''active''")
    case True
    then have "download L now i body s =
        (Error 410 ''Transfer has expired'', [Call ''updateStatus''], updateStatus i ''expired'' s)"
      by (simp add: dl)
    with upd show ?thesis by (simp only: fst_conv snd_conv expired_response_def) simp
  next
    case False
    with assms(4) have st: "status t = ''expired''" by simp
    then have "download L now i body s = (Error 410 ''Transfer is expired'', [], s)"
      by (simp add: dl)
    moreover have "?ok s" by (simp add: assms(1) st)
    ultimately show ?thesis by (simp only: fst_conv snd_conv expired_response_def) simp
  qed
  with info info_state show ?thesis by blast
qed

theorem expired_transfer_rejected_witness:
  "getById (demo_state (demo_transfer None (Some 1500) (Some (Num 2)) 1)) ''T1''
     = Some (demo_transfer None (Some 1500) (Some (Num 2)) 1) \<and>
   expires_at (demo_transfer None (Some 1500) (Some (Num 2)) 1) = Some 1500 \<and>
   (1500 :: int) < 2000 \<and>
   status (demo_transfer None (Some 1500) (Some (Num 2)) 1) = ''active'' \<and>
   fst (get_info 2000 ''T1'' (demo_state (demo_transfer None (Some 1500) (Some (Num 2)) 1)))
     = Error 410 ''Transfer has expired'' \<and>
   expired_response (fst (download ref_lib 2000 ''T1'' (demo_request None)
     (demo_state (demo_transfer None (Some 1500) (Some (Num 2)) 1)))) \<and>
   map download_count (transfers (snd (snd (download ref_lib 2000 ''T1'' (demo_request None)
     (demo_state (demo_transfer None (Some 1500) (Some (Num 2)) 1)))))) = [1]"
proof -
  let ?t = "demo_transfer None (Some 1500) (Some (Num 2)) 1"
  let ?s = "demo_state ?t"
  have 1: "getById ?s ''T1'' = Some ?t" by (simp add: demo_defs)
  have 2: "expires_at ?t = Some 1500" by (simp add: demo_defs)
  have 3: "(1500 :: int) < 2000" by simp
  have 4: "status ?t = ''active'' \<or> status ?t = ''expired''" by (simp add: demo_defs)
  have 5: "status ?t = ''active''" by (simp add: demo_defs)
  have 6: "map download_count (transfers ?s) = [1]" by (simp add: demo_defs)
  from expired_transfer_rejected [OF 1 2 3 4, of ref_lib "demo_request None"] 1 2 3 5 6
  show ?thesis by simp
qed

section \<open>Checksum before decryption\<close>

text \<open>
  Claim C5. In every run of the download handler, \<open>decrypt\<close> is called only if the
  SHA-256 checksum recomputed over the stored ciphertext equals the checksum of the
  record. When the two differ, the run contains no call of \<open>decrypt\<close> and returns
  no file; its outcome is the same whatever the decryption function would do; and
  once the access gates are passed and key and tag are supplied, the response is
  500 \<open>File integrity check failed\<close>, with the state untouched.
\<close>

theorem decrypt_only_after_checksum:
  assumes "download L now i body s = (r, es, s')"
  shows "(Call ''decrypt'' \<in> set es \<longrightarrow>
            (\<exists>t data. getById s i = Some t \<and> uploads s (filename t) = Some data \<and>
                      generateChecksum L data = checksum t)) \<and>
         (\<forall>t data. getById s i = Some t \<and> uploads s (filename t) = Some data \<and>
                   generateChecksum L data \<noteq> checksum t \<longrightarrow>
            Call ''decrypt'' \<notin> set es \<and> \<not> is_file r \<and>
            (open_for_download now t \<and> password_ok L t (password body) \<and>
             truthy_str (body_decryptionKey body) \<and> truthy_str (body_authTag body) \<longrightarrow>
               r = Error 500 ''File integrity check failed'' \<and> s' = s) \<and>
            (\<forall>g. download (L\<lparr>aes_gcm_open := g\<rparr>) now i body s = (r, es, s')))"
proof (intro conjI allI impI)
  assume dec: "Call ''decrypt'' \<in> set es"
  obtain x es1 s1 where b: "download_begin L now i body s = (x, es1, s1)"
    by (cases "download_begin L now i body s") auto
  have "Call ''decrypt'' \<in> set es1"
  proof (cases x)
    case (Inl r1)
    with b assms show ?thesis using dec by (simp add: download_def)
  next
    case (Inr p)
    obtain r2 es2 s2 where f: "download_finish L now i p s1 = (r2, es2, s2)"
      by (cases "download_finish L now i p s1") auto
    with b Inr assms have "es = es1 @ es2" by (simp add: download_def)
    with dec download_finish_effects [OF f] show ?thesis by simp
  qed
  with b show "\<exists>t data. getById s i = Some t \<and> uploads s (filename t) = Some data \<and>
                      generateChecksum L data = checksum t"
    by (rule download_begin_decrypt_called)
next
  fix t data
  assume h: "getById s i = Some t \<and> uploads s (filename t) = Some data \<and>
             generateChecksum L data \<noteq> checksum t"
  then have h1: "getById s i = Some t" and h2: "uploads s (filename t) = Some data"
    and h3: "generateChecksum L data \<noteq> checksum t" by simp_all
  from download_begin_mismatch [OF h1 h2 h3, of now body]
  obtain r1 es1 s1 where
    b: "download_begin L now i body s = (Inl r1, es1, s1)"
    and nf: "\<not> is_file r1" and nd: "Call ''decrypt'' \<notin> set es1"
    and ind: "\<And>g. download_begin (L\<lparr>aes_gcm_open := g\<rparr>) now i body s = (Inl r1, es1, s1)"
    by blast
  from download_Inl [OF b] assms have eq: "r = r1" "es = es1" "s' = s1" by simp_all
  show "Call ''decrypt'' \<notin> set es" using nd eq by simp
  show "\<not> is_file r" using nf eq by simp
  show "download (L\<lparr>aes_gcm_open := g\<rparr>) now i body s = (r, es, s')" for g
    using download_Inl [OF ind [of g]] eq by simp
  {
    assume g: "open_for_download now t \<and> password_ok L t (password body) \<and>
             truthy_str (body_decryptionKey body) \<and> truthy_str (body_authTag body)"
    then obtain key tag where kt: "body_decryptionKey body = Some key" "body_authTag body = Some tag"
      "key \<noteq> []" "tag \<noteq> []"
      by (cases "body_decryptionKey body"; cases "body_authTag body") auto
    from g have g1: "open_for_download now t" and g2: "password_ok L t (password body)" by simp_all
    from download_begin_pipeline [OF h1 g1 g2 kt h2] h3
    have "download_begin L now i body s = (Inl (Error 500 ''File integrity check failed''),
            [Emit ''download-progress'' ''reading'', Call ''generateChecksum''], s)" by simp
    from download_Inl [OF this] assms
    show "r = Error 500 ''File integrity check failed''" and "s' = s" by simp_all
  }
qed

theorem decrypt_only_after_checksum_witness:
  "getById (damaged (demo_state (demo_transfer None None None 0))) ''T1''
     = Some (demo_transfer None None None 0) \<and>
   uploads (damaged (demo_state (demo_transfer None None None 0)))
     (filename (demo_transfer None None None 0)) = Some [0] \<and>
   generateChecksum ref_lib [0] \<noteq> checksum (demo_transfer None None None 0) \<and>
   fst (download ref_lib 2000 ''T1'' (demo_request None)
          (damaged (demo_state (demo_transfer None None None 0))))
     = Error 500 ''File integrity check failed'' \<and>
   Call ''decrypt'' \<notin> set (fst (snd (download ref_lib 2000 ''T1'' (demo_request None)
          (damaged (demo_state (demo_transfer None None None 0)))))) \<and>
   Call ''decrypt'' \<in> set (fst (snd (download ref_lib 2000 ''T1'' (demo_request None)
          (demo_state (demo_transfer None None None 0)))))"
proof -
  let ?t = "demo_transfer None None None 0"
  let ?s = "damaged (demo_state ?t)"
  let ?b = "demo_request None"
  let ?run = "download ref_lib 2000 ''T1'' ?b ?s"
  have run: "?run = (fst ?run, fst (snd ?run), snd (snd ?run))" by simp
  have 1: "getById ?s ''T1'' = Some ?t" by (simp add: demo_defs)
  have 2: "uploads ?s (filename ?t) = Some [0]" by (simp add: demo_defs)
  have 3: "generateChecksum ref_lib [0] \<noteq> checksum ?t" by (simp add: demo_defs ref_lib_defs)
  have 4: "open_for_download 2000 ?t \<and> password_ok ref_lib ?t (password ?b) \<and>
           truthy_str (body_decryptionKey ?b) \<and> truthy_str (body_authTag ?b)"
    by (simp add: demo_defs open_for_download_def password_ok_def expired_def limit_reached_def)
  have 5: "Call ''decrypt'' \<in> set (fst (snd (download ref_lib 2000 ''T1'' ?b (demo_state ?t))))"
    by (simp add: demo_defs ref_lib_defs download_defs)
  from decrypt_only_after_checksum [OF run] 1 2 3 4
  have "Call ''decrypt'' \<notin> set (fst (snd ?run)) \<and>
        fst ?run = Error 500 ''File integrity check failed''"
    by blast
  with 1 2 3 5 show ?thesis by blast
qed

section \<open>Password and key are separate gates\<close>


lemma lib_ok_trunc_lib: "lib_ok trunc_lib"
  unfolding lib_ok_def
proof (intro conjI allI impI)
  fix l b assume "level_ok l"
  then show "\<exists>z. zlib_gzip trunc_lib l b = Some z \<and> zlib_gunzip trunc_lib z = Some b"
    by (simp add: trunc_lib_def ref_lib_def ref_gunzip_def)
next
  fix l b assume "level_ok l"
  then show "\<exists>z. zlib_brotli trunc_lib l b = Some z \<and> zlib_unbrotli trunc_lib z = Some b"
    by (simp add: trunc_lib_def ref_lib_def ref_unbrotli_def)
next
  fix k iv p :: buffer assume "length k = 32 \<and> iv \<noteq> []"
  then show "\<exists>c t. aes_gcm_seal trunc_lib k iv p = Some (c, t) \<and> length c = length p \<and>
               length t = 16 \<and> aes_gcm_open trunc_lib k iv t c = Some p"
    by (simp add: trunc_lib_def ref_lib_def ref_seal_def comp_def)
next
  fix pw show "bcrypt_compare trunc_lib pw (bcrypt_hash trunc_lib pw)"
    by (simp add: trunc_lib_def ref_lib_def)
qed

lemma lib_auth_trunc_lib: "lib_auth trunc_lib"
  unfolding lib_auth_def
  by (auto simp: trunc_lib_def ref_lib_def ref_seal_def split: if_splits)






section \<open>The stream route\<close>

text \<open>
  Claim C10. For a transfer that is active and not expired and whose artifact is on
  disk, \<open>GET /api/download/:id/stream\<close> returns the stored ciphertext and the IV.
  Nothing else is consulted: not the password hash, not the limit and the count, not
  the checksum; and the state, the download count with it, is unchanged.
\<close>

theorem stream_skips_gates:
  assumes "getById s i = Some t" and "status t = ''active''" and "\<not> expired now t"
    and "uploads s (filename t) = Some data"
  shows "stream now i s = (Stream (encryption_iv t) data, [], s)"
  using assms by (simp add: stream_def)

theorem stream_skips_gates_witness:
  "getById (damaged (demo_state (demo_transfer (Some ''$2a$10$pw'') None (Some (Num 1)) 1))) ''T1''
     = Some (demo_transfer (Some ''$2a$10$pw'') None (Some (Num 1)) 1) \<and>
   truthy_str (password_hash (demo_transfer (Some ''$2a$10$pw'') None (Some (Num 1)) 1)) \<and>
   limit_reached (demo_transfer (Some ''$2a$10$pw'') None (Some (Num 1)) 1) \<and>
   generateChecksum ref_lib [0] \<noteq> checksum (demo_transfer (Some ''$2a$10$pw'') None (Some (Num 1)) 1) \<and>
   stream 2000 ''T1'' (damaged (demo_state (demo_transfer (Some ''$2a$10$pw'') None (Some (Num 1)) 1)))
     = (Stream ''07070707070707070707070707070707'' [0], [],
        damaged (demo_state (demo_transfer (Some ''$2a$10$pw'') None (Some (Num 1)) 1)))"
proof -
  let ?t = "demo_transfer (Some ''$2a$10$pw'') None (Some (Num 1)) 1"
  let ?s = "damaged (demo_state ?t)"
  have 1: "getById ?s ''T1'' = Some ?t" by (simp add: demo_defs)
  have 2: "status ?t = ''active''" by (simp add: demo_defs)
  have 3: "\<not> expired 2000 ?t" by (simp add: demo_defs expired_def)
  have 4: "uploads ?s (filename ?t) = Some [0]" by (simp add: demo_defs)
  have 5: "truthy_str (password_hash ?t)" by (simp add: demo_defs)
  have 6: "limit_reached ?t" by (simp add: demo_defs limit_reached_def)
  have 7: "generateChecksum ref_lib [0] \<noteq> checksum ?t" by (simp add: demo_defs ref_lib_defs)
  have 8: "encryption_iv ?t = ''07070707070707070707070707070707''" by (simp add: demo_defs)
  from stream_skips_gates [OF 1 2 3 4] 1 5 6 7 show ?thesis unfolding 8 by blast
qed


section \<open>What every handler preserves\<close>

lemma update_first_pres:
  assumes "\<forall>x \<in> set xs. Q x" and "\<And>x. find P xs = Some x \<Longrightarrow> Q x \<Longrightarrow> Q (f x)"
  shows "\<forall>x \<in> set (update_first P f xs). Q x"
  using assms by (induction xs) (auto split: if_splits)

lemma remove_first_subset: "set (remove_first P xs) \<subseteq> set xs"
  by (induction xs) auto

lemma updateStatus_pres:
  assumes "\<forall>t \<in> set (transfers s). Q t" and "\<And>t. Q t \<Longrightarrow> Q (t\<lparr>status := st\<rparr>)"
  shows "\<forall>t \<in> set (transfers (updateStatus i st s)). Q t"
proof -
  have "\<forall>t \<in> set (update_first (\<lambda>t. id' t = i) (\<lambda>t. t\<lparr>status := st\<rparr>) (transfers s)). Q t"
    by (rule update_first_pres [OF assms(1)]) (simp add: assms(2))
  then show ?thesis by (simp add: updateStatus_def)
qed

lemma updateDownloadCount_pres:
  assumes "\<forall>t \<in> set (transfers s). Q t"
    and "\<And>t. getById s i = Some t \<Longrightarrow> Q t \<Longrightarrow> Q (t\<lparr>download_count := download_count t + 1\<rparr>)"
  shows "\<forall>t \<in> set (transfers (updateDownloadCount i s)). Q t"
proof -
  have "\<forall>t \<in> set (update_first (\<lambda>t. id' t = i)
           (\<lambda>t. t\<lparr>download_count := download_count t + 1\<rparr>) (transfers s)). Q t"
    by (rule update_first_pres [OF assms(1)]) (use assms(2) in \<open>simp add: getById_def\<close>)
  then show ?thesis by (simp add: updateDownloadCount_def)
qed

lemma transfers_logDb_create: "transfers (logDb_create now i a d s) = transfers s"
  by (simp add: logDb_create_def)

lemma get_info_state:
  "snd (snd (get_info now i s)) = s \<or> snd (snd (get_info now i s)) = updateStatus i ''expired'' s"
  by (simp add: get_info_def split: option.splits)

lemma stream_state:
  "snd (snd (stream now i s)) = s \<or> snd (snd (stream now i s)) = updateStatus i ''expired'' s"
  by (simp add: stream_def split: option.splits)

lemma download_begin_state:
  assumes "download_begin L now i body s = (x, es, s')"
  shows "transfers s' = transfers s \<or> s' = updateStatus i ''expired'' s"
  using assms unfolding download_begin_def password_gate_def
  by (auto simp: transfers_logDb_create split: option.splits if_splits prod.splits)

lemma download_begin_Inr:
  assumes "download_begin L now i body s = (Inr (t, p), es, s')"
  shows "s' = s \<and> getById s i = Some t \<and> open_for_download now t"
  using assms unfolding download_begin_def password_gate_def open_for_download_def
  by (auto split: option.splits if_splits prod.splits)

lemma download_finish_state:
  assumes "download_finish L now i (t, p) s = (r, es, s')"
  shows "(\<not> is_file r \<and> s' = s) \<or>
         (is_file r \<and> transfers s' = transfers (updateDownloadCount i s))"
  using assms unfolding download_finish_def
  by (auto simp: transfers_logDb_create split: option.splits)

lemma download_pres:
  assumes "\<forall>t \<in> set (transfers s). Q t"
    and "\<And>t. Q t \<Longrightarrow> Q (t\<lparr>status := ''expired''\<rparr>)"
    and "\<And>t. Q t \<Longrightarrow> \<not> limit_reached t \<Longrightarrow> Q (t\<lparr>download_count := download_count t + 1\<rparr>)"
  shows "\<forall>t \<in> set (transfers (snd (snd (download L now i body s)))). Q t"
proof -
  obtain x es1 s1 where b: "download_begin L now i body s = (x, es1, s1)"
    by (cases "download_begin L now i body s") auto
  from download_begin_state [OF b] assms(1) updateStatus_pres [OF assms(1), of "''expired''" i] assms(2)
  have q1: "\<forall>t \<in> set (transfers s1). Q t" by auto
  show ?thesis
  proof (cases x)
    case (Inl r)
    with b q1 show ?thesis by (simp add: download_def)
  next
    case (Inr q)
    obtain t p where q: "q = (t, p)" by (cases q)
    from download_begin_Inr [OF b [unfolded Inr q]]
    have s1: "s1 = s" and t: "getById s i = Some t" and op: "open_for_download now t" by simp_all
    obtain r es2 s2 where f: "download_finish L now i (t, p) s = (r, es2, s2)"
      by (cases "download_finish L now i (t, p) s") auto
    have "\<forall>u \<in> set (transfers (updateDownloadCount i s)). Q u"
      using updateDownloadCount_pres [OF assms(1), of i] t op assms(3)
      by (simp add: open_for_download_def)
    with download_finish_state [OF f] assms(1)
    have "\<forall>u \<in> set (transfers s2). Q u" by auto
    with b Inr q s1 f show ?thesis by (simp add: download_def)
  qed
qed

lemma upload_pres:
  assumes "\<forall>t \<in> set (transfers s). Q t"
    and "\<And>t. download_count t = 0 \<Longrightarrow> status t = ''active'' \<Longrightarrow> Q t"
  shows "\<forall>t \<in> set (transfers (snd (snd (upload L now rnd file body s)))). Q t"
  using assms unfolding upload_def Let_def
  by (auto simp: transfers_logDb_create transferDb_create_def split: option.splits prod.splits)

lemma chunk_upload_transfers:
  "transfers (snd (snd (chunk_upload file body s))) = transfers s"
  unfolding chunk_upload_def Let_def
  by (auto split: option.splits prod.splits)

lemma list_pres:
  assumes "\<forall>t \<in> set (transfers s). Q t" and "\<And>t. Q t \<Longrightarrow> Q (t\<lparr>status := ''expired''\<rparr>)"
  shows "\<forall>t \<in> set (transfers (snd (list_transfers now limit offset s))). Q t"
  using assms by (auto simp: list_transfers_def cleanupExpired_def Let_def)

lemma delete_pres:
  assumes "\<forall>t \<in> set (transfers s). Q t"
  shows "\<forall>t \<in> set (transfers (snd (snd (delete_transfer now i s)))). Q t"
  using assms remove_first_subset [of "\<lambda>t. id' t = i" "transfers s"]
  by (auto simp: delete_transfer_def transfers_logDb_create transferDb_delete_def split: option.splits)

lemma handle_pres_other:
  assumes "\<forall>t \<in> set (transfers s). Q t"
    and "\<And>t. Q t \<Longrightarrow> Q (t\<lparr>status := ''expired''\<rparr>)"
    and "\<And>t. download_count t = 0 \<Longrightarrow> status t = ''active'' \<Longrightarrow> Q t"
    and "\<forall>i body. req \<noteq> Download i body"
  shows "\<forall>t \<in> set (transfers (handle L now req s)). Q t"
proof (cases req)
  case (Upload rnd fl body)
  then show ?thesis using upload_pres [OF assms(1,3)] by simp
next
  case (ChunkUpload fl body)
  then show ?thesis using assms(1) by (simp add: chunk_upload_transfers)
next
  case (GetInfo i)
  then show ?thesis
    using get_info_state [of now i s] assms(1) updateStatus_pres [OF assms(1,2), of i] by auto
next
  case (Download i body)
  with assms(4) show ?thesis by simp
next
  case (StreamReq i)
  then show ?thesis
    using stream_state [of now i s] assms(1) updateStatus_pres [OF assms(1,2), of i] by auto
next
  case (ListTransfers limit offset)
  then show ?thesis using list_pres [OF assms(1,2)] by simp
next
  case (DeleteTransfer i)
  then show ?thesis using delete_pres [OF assms(1)] by simp
qed

lemma handle_pres:
  assumes "\<forall>t \<in> set (transfers s). Q t"
    and "\<And>t. Q t \<Longrightarrow> Q (t\<lparr>status := ''expired''\<rparr>)"
    and "\<And>t. Q t \<Longrightarrow> \<not> limit_reached t \<Longrightarrow> Q (t\<lparr>download_count := download_count t + 1\<rparr>)"
    and "\<And>t. download_count t = 0 \<Longrightarrow> status t = ''active'' \<Longrightarrow> Q t"
  shows "\<forall>t \<in> set (transfers (handle L now req s)). Q t"
proof (cases "\<exists>i body. req = Download i body")
  case True
  then obtain i body where "req = Download i body" by blast
  then show ?thesis using download_pres [OF assms(1,2,3), of L now i body] by simp
next
  case False
  then have "\<forall>i body. req \<noteq> Download i body" by simp
  from handle_pres_other [OF assms(1,2,4) this] show ?thesis .
qed

lemma within_limit_step:
  assumes "within_limit t" and "\<not> limit_reached t"
  shows "within_limit (t\<lparr>download_count := download_count t + 1\<rparr>)"
proof (cases "max_downloads t")
  case None
  then show ?thesis by (simp add: within_limit_def)
next
  case (Some l)
  show ?thesis
  proof (cases l)
    case NaN
    with Some show ?thesis by (simp add: within_limit_def)
  next
    case (Num m)
    with Some assms show ?thesis
      by (auto simp: within_limit_def limit_reached_def)
  qed
qed

lemma within_limit_fresh: "download_count t = 0 \<Longrightarrow> within_limit t"
  by (simp add: within_limit_def split: option.splits jsnum.splits)

lemma within_limit_status: "within_limit (t\<lparr>status := st\<rparr>) = within_limit t"
  by (simp add: within_limit_def split: option.splits jsnum.splits)

lemma quota_inv_handle: "quota_inv s \<Longrightarrow> quota_inv (handle L now req s)"
  unfolding quota_inv_def
proof (rule handle_pres)
  fix t assume "within_limit t" and "\<not> limit_reached t"
  then show "within_limit (t\<lparr>download_count := download_count t + 1\<rparr>)"
    by (rule within_limit_step)
qed (simp_all add: within_limit_fresh within_limit_status)

lemma status_inv_handle: "status_inv s \<Longrightarrow> status_inv (handle L now req s)"
  unfolding status_inv_def
  by (rule handle_pres) simp_all

lemma getById_logDb_create: "getById (logDb_create now i a d s) j = getById s j"
  by (simp add: getById_def logDb_create_def)

text \<open>What a download does to the state, by its response.\<close>

lemma download_begin_Inl_no_file:
  assumes "download_begin L now i body s = (Inl r, es, s')"
  shows "\<not> is_file r"
  using assms unfolding download_begin_def password_gate_def
  by (auto split: option.splits if_splits prod.splits)

lemma download_finish_served:
  assumes "download_finish L now i (t, p) s = (r, es, s')" and "is_file r"
  shows "getById s' i = getById (updateDownloadCount i s) i"
  using assms unfolding download_finish_def
  by (auto simp: getById_logDb_create split: option.splits)

lemma download_rejected:
  assumes "\<not> is_file (fst (download L now i body s))"
  shows "map download_count (transfers (snd (snd (download L now i body s)))) =
           map download_count (transfers s)"
proof -
  obtain x es1 s1 where b: "download_begin L now i body s = (x, es1, s1)"
    by (cases "download_begin L now i body s") auto
  show ?thesis
  proof (cases x)
    case (Inl r)
    from download_begin_state [OF b]
    have "map download_count (transfers s1) = map download_count (transfers s)"
      by (auto simp: download_counts_updateStatus)
    moreover have "download L now i body s = (r, es1, s1)"
      using b Inl by (simp add: download_def)
    ultimately show ?thesis by simp
  next
    case (Inr q)
    obtain t p where q: "q = (t, p)" by (cases q)
    from download_begin_Inr [OF b [unfolded Inr q]] have s1: "s1 = s" by simp
    obtain r es2 s2 where f: "download_finish L now i (t, p) s = (r, es2, s2)"
      by (cases "download_finish L now i (t, p) s") auto
    have d: "download L now i body s = (r, es1 @ es2, s2)"
      using b Inr q s1 f by (simp add: download_def)
    with assms have "\<not> is_file r" by simp
    with download_finish_state [OF f] have "s2 = s" by simp
    with d show ?thesis by simp
  qed
qed

lemma download_served:
  assumes "is_file (fst (download L now i body s))"
  shows "\<exists>t. getById s i = Some t \<and> open_for_download now t \<and>
           getById (snd (snd (download L now i body s))) i =
             Some (t\<lparr>download_count := download_count t + 1\<rparr>)"
proof -
  obtain x es1 s1 where b: "download_begin L now i body s = (x, es1, s1)"
    by (cases "download_begin L now i body s") auto
  show ?thesis
  proof (cases x)
    case (Inl r)
    then have "download L now i body s = (r, es1, s1)"
      using b by (simp add: download_def)
    with download_begin_Inl_no_file [OF b [unfolded Inl]] assms show ?thesis by simp
  next
    case (Inr q)
    obtain t p where q: "q = (t, p)" by (cases q)
    from download_begin_Inr [OF b [unfolded Inr q]]
    have s1: "s1 = s" and t: "getById s i = Some t" and op: "open_for_download now t" by simp_all
    obtain r es2 s2 where f: "download_finish L now i (t, p) s = (r, es2, s2)"
      by (cases "download_finish L now i (t, p) s") auto
    have d: "download L now i body s = (r, es1 @ es2, s2)"
      using b Inr q s1 f by (simp add: download_def)
    with assms have fr: "is_file r" by simp
    have "getById s2 i = Some (t\<lparr>download_count := download_count t + 1\<rparr>)"
      by (simp only: download_finish_served [OF f fr] getById_updateDownloadCount t option.map)
    with t op d show ?thesis by simp
  qed
qed

lemma limit_reached_rejects:
  assumes "getById s i = Some t" and "limit_reached t"
  shows "\<not> is_file (fst (download L now i body s))"
    and "\<not> is_info (fst (get_info now i s))"
    and "\<not> expired now t \<Longrightarrow> fst (get_info now i s) = Error 410 ''Download limit reached''"
    and "\<not> expired now t \<Longrightarrow> status t = ''active'' \<Longrightarrow>
           fst (download L now i body s) = Error 410 ''Download limit reached''"
  using assms by (simp_all add: download_def download_begin_def get_info_def)

section \<open>The download limit\<close>

text \<open>
  Claim C3, as the code has it. The limit is the check
  \<open>max_downloads && download_count >= max_downloads\<close>, so it binds when
  \<open>max_downloads\<close> is a number other than 0 (\<open>limit_reached\<close>). For records whose
  limit is a positive number, \<open>download_count \<le> max_downloads\<close> is preserved by every
  request the server handles. When the limit is reached, \<open>get_info\<close> and \<open>download\<close>
  never succeed, and they answer 410 \<open>Download limit reached\<close> unless an earlier gate
  (expiry, for download also the status) answers first. A download that returns the
  file has passed the check and adds exactly one to the count of the record it read;
  a download that returns no file and every other request leave all counts as they
  are (a new record starts at 0).
\<close>

theorem quota_respected:
  assumes "quota_inv s"
  shows "quota_inv (handle L now req s) \<and>
         (\<forall>i t. getById s i = Some t \<and> limit_reached t \<longrightarrow>
            \<not> is_file (fst (download L now i body s)) \<and>
            \<not> is_info (fst (get_info now i s)) \<and>
            (\<not> expired now t \<longrightarrow>
               fst (get_info now i s) = Error 410 ''Download limit reached'' \<and>
               (status t = ''active'' \<longrightarrow>
                  fst (download L now i body s) = Error 410 ''Download limit reached''))) \<and>
         (\<forall>i. is_file (fst (download L now i body s)) \<longrightarrow>
              (\<exists>t. getById s i = Some t \<and> \<not> limit_reached t \<and>
                   getById (snd (snd (download L now i body s))) i =
                     Some (t\<lparr>download_count := download_count t + 1\<rparr>))) \<and>
         (\<forall>i. \<not> is_file (fst (download L now i body s)) \<longrightarrow>
              map download_count (transfers (snd (snd (download L now i body s)))) =
                map download_count (transfers s)) \<and>
         ((\<forall>i b. req \<noteq> Download i b) \<longrightarrow>
            (\<forall>t' \<in> set (transfers (handle L now req s)).
               download_count t' = 0 \<or>
               (\<exists>t \<in> set (transfers s). download_count t' = download_count t)))"
proof -
  have inv: "quota_inv (handle L now req s)" using assms by (rule quota_inv_handle)
  have rej: "\<not> is_file (fst (download L now i body s)) \<and>
            \<not> is_info (fst (get_info now i s)) \<and>
            (\<not> expired now t \<longrightarrow>
               fst (get_info now i s) = Error 410 ''Download limit reached'' \<and>
               (status t = ''active'' \<longrightarrow>
                  fst (download L now i body s) = Error 410 ''Download limit reached''))"
    if "getById s i = Some t \<and> limit_reached t" for i t
  proof -
    from that have g: "getById s i = Some t" and l: "limit_reached t" by simp_all
    from limit_reached_rejects [OF g l] show ?thesis by blast
  qed
  have srv: "\<exists>t. getById s i = Some t \<and> \<not> limit_reached t \<and>
                   getById (snd (snd (download L now i body s))) i =
                     Some (t\<lparr>download_count := download_count t + 1\<rparr>)"
    if "is_file (fst (download L now i body s))" for i
    using download_served [OF that] by (auto simp: open_for_download_def)
  have other: "\<forall>t' \<in> set (transfers (handle L now req s)).
          download_count t' = 0 \<or> (\<exists>t \<in> set (transfers s). download_count t' = download_count t)"
    if o: "\<forall>i b. req \<noteq> Download i b"
    by (rule handle_pres_other [OF _ _ _ o]) auto
  from inv rej srv download_rejected other show ?thesis by blast
qed

theorem quota_respected_witness:
  "quota_inv (demo_state (demo_transfer None None (Some (Num 1)) 0)) \<and>
   quota_inv (handle ref_lib 2000 (Download ''T1'' (demo_request None))
                (demo_state (demo_transfer None None (Some (Num 1)) 0))) \<and>
   map download_count (transfers (handle ref_lib 2000 (Download ''T1'' (demo_request None))
                (demo_state (demo_transfer None None (Some (Num 1)) 0)))) = [1] \<and>
   getById (demo_state (demo_transfer None None (Some (Num 1)) 1)) ''T1''
     = Some (demo_transfer None None (Some (Num 1)) 1) \<and>
   limit_reached (demo_transfer None None (Some (Num 1)) 1) \<and>
   fst (get_info 2000 ''T1'' (demo_state (demo_transfer None None (Some (Num 1)) 1)))
     = Error 410 ''Download limit reached'' \<and>
   fst (download ref_lib 2000 ''T1'' (demo_request None)
          (demo_state (demo_transfer None None (Some (Num 1)) 1)))
     = Error 410 ''Download limit reached''"
proof -
  let ?s0 = "demo_state (demo_transfer None None (Some (Num 1)) 0)"
  let ?t1 = "demo_transfer None None (Some (Num 1)) 1"
  let ?s1 = "demo_state ?t1"
  have 1: "quota_inv ?s0" by (simp add: quota_inv_def within_limit_def demo_defs)
  have 2: "quota_inv ?s1" by (simp add: quota_inv_def within_limit_def demo_defs)
  have 3: "getById ?s1 ''T1'' = Some ?t1" by (simp add: demo_defs)
  have 4: "limit_reached ?t1" by (simp add: limit_reached_def demo_defs)
  have 5: "\<not> expired 2000 ?t1" by (simp add: expired_def demo_defs)
  have 6: "status ?t1 = ''active''" by (simp add: demo_defs)
  have 7: "map download_count (transfers (handle ref_lib 2000 (Download ''T1'' (demo_request None)) ?s0)) = [1]"
    by (simp add: demo_defs ref_lib_defs download_defs)
  from quota_respected [OF 1, of ref_lib 2000 "Download ''T1'' (demo_request None)"]
  have a: "quota_inv (handle ref_lib 2000 (Download ''T1'' (demo_request None)) ?s0)" by blast
  from quota_respected [OF 2, of ref_lib 2000 "GetInfo ''T1''" "demo_request None"] 3 4 5 6
  have b: "fst (get_info 2000 ''T1'' ?s1) = Error 410 ''Download limit reached'' \<and>
           fst (download ref_lib 2000 ''T1'' (demo_request None) ?s1) = Error 410 ''Download limit reached''"
    by blast
  from 1 a 7 3 4 b show ?thesis by blast
qed

text \<open>
  The claim as the specification states it fails for a limit of 0: the form value
  \<open>'0'\<close> is stored as the number 0, the check treats it as no limit, and the download
  is served and counted.
\<close>

theorem quota_zero_counterexample:
  "transfers (after_upload demo_file (demo_form None None (Some ''0'')))
     = [demo_transfer None None (Some (Num 0)) 0] \<and>
   max_downloads (demo_transfer None None (Some (Num 0)) 0) = Some (Num 0) \<and>
   fst (download ref_lib 2000 ''T1'' (demo_request None)
          (after_upload demo_file (demo_form None None (Some ''0''))))
     = SendFile ''image/png'' ''a.bin'' [1, 2, 3] \<and>
   map download_count (transfers (snd (snd (download ref_lib 2000 ''T1'' (demo_request None)
          (after_upload demo_file (demo_form None None (Some ''0''))))))) = [1]"
  by code_simp

section \<open>Two downloads against a limit of one\<close>

text \<open>
  Claim C9, as the code has it. The check of the count and its increment are two
  steps of the handler with \<open>await\<close> between them, and nothing in the source locks a
  transfer. When the two requests are handled one after the other, the outcome is the
  one the claim describes: after a download of a transfer with limit 1 has returned
  the file, a further download of it returns no file, and before the expiry it
  answers 410 \<open>Download limit reached\<close>.
\<close>

theorem sequential_limit_one:
  assumes "getById s i = Some t" and "max_downloads t = Some (Num 1)"
    and "is_file (fst (download L now i body s))"
  shows "\<not> is_file (fst (download L now' i body' (snd (snd (download L now i body s))))) \<and>
         (\<not> expired now' t \<longrightarrow>
            fst (download L now' i body' (snd (snd (download L now i body s))))
              = Error 410 ''Download limit reached'')"
proof -
  let ?s' = "snd (snd (download L now i body s))"
  let ?t' = "t\<lparr>download_count := download_count t + 1\<rparr>"
  from download_served [OF assms(3)] assms(1)
  have op: "open_for_download now t" and g': "getById ?s' i = Some ?t'" by simp_all
  have l: "limit_reached ?t'" using assms(2) by (simp add: limit_reached_def)
  have st: "status ?t' = ''active''" using op by (simp add: open_for_download_def)
  have ex: "expired now' ?t' = expired now' t" by (simp add: expired_def)
  from limit_reached_rejects(1) [OF g' l] limit_reached_rejects(4) [OF g' l _ st] ex
  show ?thesis by blast
qed

theorem sequential_limit_one_witness:
  "getById (demo_state (demo_transfer None None (Some (Num 1)) 0)) ''T1''
     = Some (demo_transfer None None (Some (Num 1)) 0) \<and>
   max_downloads (demo_transfer None None (Some (Num 1)) 0) = Some (Num 1) \<and>
   fst (download ref_lib 2000 ''T1'' (demo_request None)
          (demo_state (demo_transfer None None (Some (Num 1)) 0)))
     = SendFile ''image/png'' ''a.bin'' [1, 2, 3] \<and>
   fst (download ref_lib 3000 ''T1'' (demo_request None)
          (snd (snd (download ref_lib 2000 ''T1'' (demo_request None)
             (demo_state (demo_transfer None None (Some (Num 1)) 0))))))
     = Error 410 ''Download limit reached''"
proof -
  let ?t = "demo_transfer None None (Some (Num 1)) 0"
  let ?s = "demo_state ?t"
  have 1: "getById ?s ''T1'' = Some ?t" by (simp add: demo_defs)
  have 2: "max_downloads ?t = Some (Num 1)" by (simp add: demo_defs)
  have 3: "fst (download ref_lib 2000 ''T1'' (demo_request None) ?s)
             = SendFile ''image/png'' ''a.bin'' [1, 2, 3]"
    by (simp add: demo_defs ref_lib_defs download_defs)
  then have 4: "is_file (fst (download ref_lib 2000 ''T1'' (demo_request None) ?s))" by simp
  have 5: "\<not> expired 3000 ?t" by (simp add: demo_defs expired_def)
  from sequential_limit_one [OF 1 2 4, of 3000 "demo_request None"] 5 1 2 3
  show ?thesis by blast
qed

text \<open>
  When the second request arrives while the first waits for its decompression, both
  pass the check against the count 0, both return the file, and the count of the
  transfer with limit 1 ends at 2.
\<close>

theorem overlapping_downloads_counterexample:
  "map max_downloads (transfers (after_upload demo_file (demo_form None None (Some ''1''))))
     = [Some (Num 1)] \<and>
   fst (overlapped ref_lib 2000 ''T1'' (demo_request None) (demo_request None)
          (after_upload demo_file (demo_form None None (Some ''1''))))
     = SendFile ''image/png'' ''a.bin'' [1, 2, 3] \<and>
   fst (snd (overlapped ref_lib 2000 ''T1'' (demo_request None) (demo_request None)
          (after_upload demo_file (demo_form None None (Some ''1'')))))
     = SendFile ''image/png'' ''a.bin'' [1, 2, 3] \<and>
   map download_count (transfers (snd (snd
      (overlapped ref_lib 2000 ''T1'' (demo_request None) (demo_request None)
          (after_upload demo_file (demo_form None None (Some ''1''))))))) = [2]"
  by code_simp

section \<open>The upload handler\<close>

text \<open>What a successful upload has done.\<close>

lemma upload_Uploaded:
  assumes "upload L now rnd (Some f) body s = (Uploaded u, es, s1)"
  shows "\<exists>z c tag t.
      compress L (selectAlgorithm (Some (mimetype f)))
        (case compressionLevel body of None \<Rightarrow> Num 6 | Some v \<Rightarrow> parseInt v) (file_data f) = Some z \<and>
      encrypt L z (generateKey (rnd_key rnd)) (generateIV (rnd_iv rnd)) = Some (c, tag) \<and>
      up_id u = rnd_id rnd \<and> decryptionKey u = generateKey (rnd_key rnd) \<and> up_authTag u = tag \<and>
      up_compressedSize u = length c \<and>
      up_compressionRatio u = Percent (length z) (length (file_data f)) \<and>
      uploads s1 (rnd_id rnd @ ''.enc'') = Some c \<and>
      transfers s1 = transfers s @ [t] \<and>
      id' t = rnd_id rnd \<and> filename t = rnd_id rnd @ ''.enc'' \<and>
      checksum t = generateChecksum L c \<and> encryption_iv t = generateIV (rnd_iv rnd) \<and>
      original_size t = length (file_data f) \<and> compressed_size t = length c \<and>
      compression_ratio t = Percent (length z) (length (file_data f))"
  using assms unfolding upload_def compressFile_def Let_def
  by (auto simp: transfers_logDb_create transferDb_create_def logDb_create_def
      split: option.splits prod.splits)

lemma find_snoc:
  "find P (xs @ [y]) = (case find P xs of None \<Rightarrow> (if P y then Some y else None) | Some x \<Rightarrow> Some x)"
  by (induction xs) simp_all

lemma getById_fresh:
  assumes "getById s i = None" and "transfers s1 = transfers s @ [t]" and "id' t = i"
  shows "getById s1 i = Some t"
  using assms by (simp add: getById_def find_snoc)

lemma download_file_pipeline:
  assumes "is_file (fst (download L now i body s))"
  shows "\<exists>t data key tag p d. getById s i = Some t \<and> uploads s (filename t) = Some data \<and>
           body_decryptionKey body = Some key \<and> body_authTag body = Some tag \<and>
           decrypt L data key (encryption_iv t) tag = Some p \<and> decompressGzip L p = Some d"
proof -
  obtain x es1 s1 where b: "download_begin L now i body s = (x, es1, s1)"
    by (cases "download_begin L now i body s") auto
  show ?thesis
  proof (cases x)
    case (Inl r)
    then have "download L now i body s = (r, es1, s1)"
      using b by (simp add: download_def)
    with download_begin_Inl_no_file [OF b [unfolded Inl]] assms show ?thesis by simp
  next
    case (Inr q)
    obtain t' p where q: "q = (t', p)" by (cases q)
    note b' = b [unfolded Inr q]
    from download_begin_Inr [OF b'] have s1: "s1 = s" by simp
    obtain r es2 s2 where f: "download_finish L now i (t', p) s = (r, es2, s2)"
      by (cases "download_finish L now i (t', p) s") auto
    have "download L now i body s = (r, es1 @ es2, s2)"
      using b Inr q s1 f by (simp add: download_def)
    with assms have "is_file r" by simp
    from download_finish_file [OF f this] obtain d where "decompressGzip L p = Some d" by blast
    with download_begin_needs_decrypt [OF b'] show ?thesis by blast
  qed
qed

lemma ref_lib_formats:
  "\<forall>l b z. zlib_brotli ref_lib l b = Some z \<longrightarrow> zlib_gunzip ref_lib z = None"
  by (auto simp: ref_lib_def ref_gunzip_def split: list.splits if_splits)

section \<open>Sizes in the transfer record\<close>





section \<open>Algorithm at store time and at retrieve time\<close>

text \<open>
  Claim C1 does not hold of the code. The upload compresses a file of a text-like
  MIME type with Brotli; the download handler calls \<open>decompressGzip\<close> whatever the
  type, and the record does not store the algorithm. Given that gunzip rejects what
  Brotli writes, such a file cannot be retrieved: with the key and tag that the upload
  returned, the download never returns the file, and once the access gates are passed
  its response is the generic 500 \<open>Download failed\<close>.
\<close>

theorem text_upload_not_downloadable:
  assumes "lib_ok L"
    and "\<forall>l b z. zlib_brotli L l b = Some z \<longrightarrow> zlib_gunzip L z = None"
    and "selectAlgorithm (Some (mimetype f)) = BROTLI"
    and "length (rnd_key rnd) = KEY_LENGTH" and "length (rnd_iv rnd) = IV_LENGTH"
    and "getById s (rnd_id rnd) = None"
    and "upload L now rnd (Some f) body s = (Uploaded u, es, s1)"
    and "body_decryptionKey req = Some (decryptionKey u)"
    and "body_authTag req = Some (up_authTag u)"
  shows "\<not> is_file (fst (download L now' (up_id u) req s1)) \<and>
         (\<exists>t. getById s1 (up_id u) = Some t \<and>
              (open_for_download now' t \<and> password_ok L t (password req) \<longrightarrow>
                 fst (download L now' (up_id u) req s1) = Error 500 ''Download failed''))"
proof -
  let ?key = "generateKey (rnd_key rnd)" and ?iv = "generateIV (rnd_iv rnd)"
  from upload_Uploaded [OF assms(7)] assms(3) obtain z c tag t where
    z: "compress L BROTLI (case compressionLevel body of None \<Rightarrow> Num 6 | Some v \<Rightarrow> parseInt v)
          (file_data f) = Some z"
    and enc: "encrypt L z ?key ?iv = Some (c, tag)"
    and u: "up_id u = rnd_id rnd" "decryptionKey u = ?key" "up_authTag u = tag"
    and s1: "uploads s1 (rnd_id rnd @ ''.enc'') = Some c" "transfers s1 = transfers s @ [t]"
    and t: "id' t = rnd_id rnd" "filename t = rnd_id rnd @ ''.enc''"
      "checksum t = generateChecksum L c" "encryption_iv t = ?iv"
    by auto
  have g: "getById s1 (up_id u) = Some t"
    using getById_fresh [OF assms(6) s1(2) t(1)] u(1) by simp
  have stored: "uploads s1 (filename t) = Some c" using s1(1) t(2) by simp
  have "length (rnd_key rnd) = 32" "rnd_iv rnd \<noteq> []"
    using assms(4,5) by (auto simp: KEY_LENGTH_def IV_LENGTH_def)
  from encrypt_decrypt [OF assms(1) this, of z] enc
  have tag: "tag \<noteq> []" and dec: "decrypt L c ?key ?iv tag = Some z"
    by (auto simp: generateKey_def generateIV_def)
  have key: "?key \<noteq> []"
    using length_to_hex [of "rnd_key rnd"] \<open>length (rnd_key rnd) = 32\<close>
    by (auto simp: generateKey_def)
  from z assms(2) have gz: "decompressGzip L z = None"
    by (simp add: compress_def compressBrotli_def decompressGzip_def)
  have no_file: "\<not> is_file (fst (download L now' (up_id u) req s1))"
  proof
    assume "is_file (fst (download L now' (up_id u) req s1))"
    from download_file_pipeline [OF this] g stored assms(8,9) u t(4) dec gz
    show False by auto
  qed
  have "fst (download L now' (up_id u) req s1) = Error 500 ''Download failed''"
    if op: "open_for_download now' t" and pw: "password_ok L t (password req)"
  proof -
    from download_begin_pipeline [OF g op pw assms(8,9) _ _ stored] key tag u t(3,4) dec
    have "download_begin L now' (up_id u) req s1 =
            (Inr (t, z),
             [Emit ''download-progress'' ''reading'', Call ''generateChecksum'',
              Emit ''download-progress'' ''decrypting'', Call ''decrypt'',
              Emit ''download-progress'' ''decompressing'', Call ''decompressGzip''], s1)"
      by simp
    then show ?thesis by (simp add: download_def download_finish_def gz)
  qed
  with no_file g show ?thesis by blast
qed

theorem text_upload_not_downloadable_witness:
  "lib_ok ref_lib \<and>
   zlib_gunzip ref_lib (the (zlib_brotli ref_lib (Num 6) [1, 2, 3])) = None \<and>
   selectAlgorithm (Some (mimetype demo_text)) = BROTLI \<and>
   getById empty_state (rnd_id demo_rnd) = None \<and>
   fst (download ref_lib 2000 ''T1'' (demo_request None)
          (after_upload demo_text (demo_form None None None)))
     = Error 500 ''Download failed'' \<and>
   fst (download ref_lib 2000 ''T1'' (demo_request None)
          (after_upload demo_file (demo_form None None None)))
     = SendFile ''image/png'' ''a.bin'' [1, 2, 3]"
proof -
  let ?run = "upload ref_lib 1000 demo_rnd (Some demo_text) (demo_form None None None) empty_state"
  let ?u = "case fst ?run of Uploaded u \<Rightarrow> u"
  let ?s1 = "after_upload demo_text (demo_form None None None)"
  have 1: "length (rnd_key demo_rnd) = KEY_LENGTH" by (simp add: demo_rnd_def KEY_LENGTH_def)
  have 2: "length (rnd_iv demo_rnd) = IV_LENGTH" by (simp add: demo_rnd_def IV_LENGTH_def)
  have 3: "fst ?run = Uploaded ?u" by code_simp
  have 4: "?run = (Uploaded ?u, fst (snd ?run), ?s1)"
    unfolding after_upload_def 3 [symmetric] by simp
  have 5: "selectAlgorithm (Some (mimetype demo_text)) = BROTLI" by code_simp
  have 6: "getById empty_state (rnd_id demo_rnd) = None"
    by (simp add: getById_def empty_state_def)
  have 7: "body_decryptionKey (demo_request None) = Some (decryptionKey ?u)" by code_simp
  have 8: "body_authTag (demo_request None) = Some (up_authTag ?u)" by code_simp
  have 9: "up_id ?u = ''T1''" by code_simp
  have 10: "open_for_download 2000 (the (getById ?s1 ''T1'')) \<and>
            password_ok ref_lib (the (getById ?s1 ''T1'')) (password (demo_request None))"
    by code_simp
  have 11: "fst (download ref_lib 2000 ''T1'' (demo_request None)
          (after_upload demo_file (demo_form None None None)))
     = SendFile ''image/png'' ''a.bin'' [1, 2, 3]" by code_simp
  from text_upload_not_downloadable [OF lib_ok_ref_lib ref_lib_formats 5 1 2 6 4 7 8, of 2000] 10
  have "fst (download ref_lib 2000 ''T1'' (demo_request None) ?s1) = Error 500 ''Download failed''"
    unfolding 9 by auto
  moreover have "zlib_gunzip ref_lib (the (zlib_brotli ref_lib (Num 6) [1, 2, 3])) = None"
    by (simp add: ref_lib_defs)
  ultimately show ?thesis using lib_ok_ref_lib 5 6 11 by blast
qed

section \<open>Decimal strings\<close>


lemma digit_char: "k < 10 \<Longrightarrow> is_dec_digit (''0123456789'' ! k)"
  unfolding is_dec_digit_def by (rule nth_mem) simp

lemma hex_val_digit_char:
  assumes "k < 10"
  shows "hex_val (''0123456789'' ! k) = Some k"
proof -
  from assms have "k \<in> set [0 ..< 10]" by simp
  also have "[0 ..< 10] = [0, 1, 2, 3, 4, 5, 6, 7, 8, 9 :: nat]"
    by (simp add: upt_rec)
  finally show ?thesis by (auto simp: hex_val_def)
qed

lemma dec_digit_props:
  assumes "is_dec_digit c"
  shows "\<not> is_space c" and "c \<noteq> CHR ''-''" and "c \<noteq> CHR ''+''" and "c \<noteq> CHR ''x''"
    and "c \<noteq> CHR ''X''" and "is_digit_in 10 c"
  using assms by (auto simp: is_dec_digit_def is_space_def is_digit_in_def hex_val_def)

lemma dec_digits: "\<forall>c \<in> set (dec n). is_dec_digit c"
proof (induction n rule: dec.induct)
  case (1 n)
  show ?case
  proof (cases "n < 10")
    case True
    then show ?thesis by (simp add: dec.simps [of n] digit_char)
  next
    case False
    with 1 show ?thesis by (simp add: dec.simps [of n] digit_char)
  qed
qed

lemma dec_nonempty: "dec n \<noteq> []"
  by (subst dec.simps) simp

lemma digits_value_snoc:
  "digits_value r (ds @ [c]) =
     r * digits_value r ds + (case hex_val c of None \<Rightarrow> 0 | Some d \<Rightarrow> d)"
  by (simp add: digits_value_def)

lemma digits_value_dec: "digits_value 10 (dec n) = n"
proof (induction n rule: dec.induct)
  case (1 n)
  show ?case
  proof (cases "n < 10")
    case True
    then show ?thesis
      by (simp add: dec.simps [of n] digits_value_def hex_val_digit_char)
  next
    case False
    with 1 have "digits_value 10 (dec (n div 10)) = n div 10" by simp
    with False show ?thesis
      by (simp add: dec.simps [of n] digits_value_snoc hex_val_digit_char)
  qed
qed

lemma parse_unsigned_dec: "parse_unsigned (dec n) = Some n"
proof -
  have all: "\<forall>c \<in> set (dec n). is_dec_digit c" by (rule dec_digits)
  obtain c r where cr: "dec n = c # r" using dec_nonempty [of n] by (cases "dec n") auto
  have no_prefix: "take 2 (dec n) \<noteq> ''0x''" "take 2 (dec n) \<noteq> ''0X''"
  proof -
    show "take 2 (dec n) \<noteq> ''0x''"
    proof (cases r)
      case Nil
      with cr show ?thesis by simp
    next
      case (Cons d r')
      with cr all have "is_dec_digit d" by simp
      then have "d \<noteq> CHR ''x''" by (rule dec_digit_props)
      with cr Cons show ?thesis by simp
    qed
    show "take 2 (dec n) \<noteq> ''0X''"
    proof (cases r)
      case Nil
      with cr show ?thesis by simp
    next
      case (Cons d r')
      with cr all have "is_dec_digit d" by simp
      then have "d \<noteq> CHR ''X''" by (rule dec_digit_props)
      with cr Cons show ?thesis by simp
    qed
  qed
  have tw: "takeWhile (is_digit_in 10) (dec n) = dec n"
    using all by (simp add: takeWhile_eq_all_conv dec_digit_props)
  show ?thesis
    by (simp add: parse_unsigned_def no_prefix tw dec_nonempty digits_value_dec)
qed

lemma parseInt_dec: "parseInt (dec n) = Num (int n)"
proof -
  obtain c r where cr: "dec n = c # r" using dec_nonempty [of n] by (cases "dec n") auto
  with dec_digits [of n] have c: "is_dec_digit c" by simp
  from c have "dropWhile is_space (dec n) = c # r"
    unfolding cr by (simp add: dec_digit_props)
  with dec_digit_props(2,3) [OF c] parse_unsigned_dec [of n] show ?thesis
    by (simp add: parseInt_def cr)
qed

lemma dec_inj: "dec a = dec b \<Longrightarrow> a = b"
proof -
  assume "dec a = dec b"
  then have "parseInt (dec a) = parseInt (dec b)" by simp
  then show "a = b" by (simp add: parseInt_dec)
qed

section \<open>The chunk directory\<close>

lemma chunk_name_inj: "''chunk-'' @ dec a = ''chunk-'' @ dec b \<longleftrightarrow> a = b"
  using dec_inj by auto

lemma received_snoc:
  "received cs (q @ [i]) = AList.update (''chunk-'' @ dec i) (cs ! i) (received cs q)"
  by (simp add: received_def)

lemma received_Nil: "received cs [] = []"
  by (simp add: received_def)

lemma received_keys: "fst ` set (received cs q) = (\<lambda>i. ''chunk-'' @ dec i) ` set q"
  by (induction q rule: rev_induct) (auto simp: received_Nil received_snoc dom_update)

lemma received_distinct: "distinct (map fst (received cs q))"
  by (induction q rule: rev_induct) (simp_all add: received_Nil received_snoc distinct_update)

lemma received_lookup:
  "map_of (received cs q) (''chunk-'' @ dec j) = (if j \<in> set q then Some (cs ! j) else None)"
  by (induction q rule: rev_induct)
    (auto simp: received_Nil received_snoc update_conv' dest: dec_inj)

lemma received_length:
  assumes "distinct q"
  shows "length (received cs q) = length q"
proof -
  have "length (received cs q) = card (fst ` set (received cs q))"
    using distinct_card [OF received_distinct [of cs q]] by simp
  also have "\<dots> = card (set q)"
    unfolding received_keys by (rule card_image) (auto simp: inj_on_def dest: dec_inj)
  also have "\<dots> = length q" using assms by (rule distinct_card)
  finally show ?thesis .
qed

section \<open>The merge loop\<close>

lemma merge_loop_complete:
  assumes "i \<le> n" and "n = length cs"
    and "\<forall>j. i \<le> j \<and> j < n \<longrightarrow> map_of dir (''chunk-'' @ dec j) = Some (cs ! j)"
  shows "\<exists>dir'. merge_loop i n dir out = (True, dir', out @ concat (drop i cs)) \<and>
           fst ` set dir' = fst ` set dir - (\<lambda>j. ''chunk-'' @ dec j) ` {i ..< n}"
  using assms
proof (induction i n dir out rule: merge_loop.induct)
  case (1 i n dir out)
  show ?case
  proof (cases "i < n")
    case False
    with "1.prems"(1) have "i = n" by simp
    moreover have "merge_loop n n dir out = (True, dir, out)"
      by (subst merge_loop.simps) simp
    ultimately show ?thesis using "1.prems"(2) by simp
  next
    case True
    let ?k = "''chunk-'' @ dec i"
    from True "1.prems" have here: "map_of dir ?k = Some (cs ! i)" by simp
    have rest: "\<forall>j. i + 1 \<le> j \<and> j < n \<longrightarrow> map_of (AList.delete ?k dir) (''chunk-'' @ dec j) = Some (cs ! j)"
      using "1.prems"(3) by (auto simp: delete_conv' dest: dec_inj)
    from True have le: "i + 1 \<le> n" by simp
    from "1.IH" [OF True here le "1.prems"(2) rest]
    obtain dir' where
      run: "merge_loop (i + 1) n (AList.delete ?k dir) (out @ cs ! i) =
              (True, dir', (out @ cs ! i) @ concat (drop (i + 1) cs))"
      and keys: "fst ` set dir' = fst ` set (AList.delete ?k dir) - (\<lambda>j. ''chunk-'' @ dec j) ` {i + 1 ..< n}"
      by blast
    have "drop i cs = cs ! i # drop (i + 1) cs"
      using True "1.prems"(2) by (simp add: Cons_nth_drop_Suc)
    then have out: "(out @ cs ! i) @ concat (drop (i + 1) cs) = out @ concat (drop i cs)" by simp
    have "fst ` set (AList.delete ?k dir) = fst ` set dir - {?k}"
      using delete_keys [of ?k dir] by (metis list.set_map set_removeAll)
    moreover have "{i ..< n} = insert i {i + 1 ..< n}" using True by auto
    ultimately have "fst ` set dir' = fst ` set dir - (\<lambda>j. ''chunk-'' @ dec j) ` {i ..< n}"
      using keys by auto
    moreover have "merge_loop i n dir out =
        merge_loop (i + 1) n (AList.delete ?k dir) (out @ cs ! i)"
      using here by (subst merge_loop.simps) (simp add: True)
    ultimately show ?thesis using run out by simp
  qed
qed

section \<open>The chunk requests\<close>

lemma chunk_upload_pending:
  assumes "chunk_dir s tid = received cs q0" and "distinct (q0 @ [i])"
    and "length q0 + 1 \<noteq> length cs"
  shows "chunk_upload (Some (cs ! i)) (snd (chunk_request tid cs i)) s =
           (ChunkReceived (length q0 + 1) (Num (int (length cs))),
            [Emit ''upload-progress'' ''uploading''],
            s\<lparr>chunks := (chunks s)(tid \<mapsto> received cs (q0 @ [i]))\<rparr>)"
proof -
  have len: "length (received cs (q0 @ [i])) = length q0 + 1"
    using received_length [OF assms(2), of cs] by simp
  have dir: "AList.update (''chunk-'' @ dec i) (cs ! i)
               (case chunks s tid of None \<Rightarrow> [] | Some d \<Rightarrow> d) = received cs (q0 @ [i])"
    using assms(1) by (simp add: received_snoc chunk_dir_def)
  show ?thesis
    using assms(3) len
    by (simp add: chunk_upload_def chunk_request_def template_str_def dir parseInt_dec Let_def
        del: append.simps)
qed

lemma chunk_upload_final:
  assumes "chunk_dir s tid = received cs q0" and "distinct (q0 @ [l])"
    and "set (q0 @ [l]) = {..<length cs}"
  shows "\<exists>es s'. chunk_upload (Some (cs ! l)) (snd (chunk_request tid cs l)) s =
             (ChunkComplete (tid @ ''-merged''), es, s') \<and>
           temp s' (tid @ ''-merged'') = Some (concat cs) \<and> chunks s' tid = None"
proof -
  let ?n = "length cs"
  let ?dir = "received cs (q0 @ [l])"
  have "length (q0 @ [l]) = card (set (q0 @ [l]))"
    using distinct_card [OF assms(2)] by simp
  also have "\<dots> = ?n" unfolding assms(3) by simp
  finally have n: "length (q0 @ [l]) = ?n" .
  have len: "length ?dir = ?n"
    using received_length [OF assms(2), of cs] n by simp
  have dir: "AList.update (''chunk-'' @ dec l) (cs ! l)
               (case chunks s tid of None \<Rightarrow> [] | Some d \<Rightarrow> d) = ?dir"
    using assms(1) by (simp add: received_snoc chunk_dir_def)
  have all: "\<forall>j. 0 \<le> j \<and> j < ?n \<longrightarrow> map_of ?dir (''chunk-'' @ dec j) = Some (cs ! j)"
    using assms(3) received_lookup [of cs "q0 @ [l]"] by auto
  from merge_loop_complete [OF _ refl all, of "[]"] obtain dir' where
    run: "merge_loop 0 ?n ?dir [] = (True, dir', concat cs)"
    and keys: "fst ` set dir' = fst ` set ?dir - (\<lambda>j. ''chunk-'' @ dec j) ` {0 ..< ?n}"
    by auto
  have "fst ` set ?dir = (\<lambda>j. ''chunk-'' @ dec j) ` {0 ..< ?n}"
    unfolding received_keys assms(3) by (simp add: lessThan_atLeast0)
  with keys have "fst ` set dir' = {}" by simp
  then have empty: "dir' = []" by simp
  show ?thesis
    using len run empty
    by (simp add: chunk_upload_def chunk_request_def template_str_def dir parseInt_dec Let_def
        del: append.simps)
qed

lemma chunk_uploads_Cons:
  "chunk_uploads (x # xs) s =
     (case chunk_upload (fst x) (snd x) s of
        (r, es, s') \<Rightarrow> (case chunk_uploads xs s' of (rs, s'') \<Rightarrow> (r # rs, s'')))"
  by (cases x) simp

lemma chunk_uploads_pending:
  assumes "chunk_dir s tid = received cs q0" and "distinct (q0 @ q)"
    and "length (q0 @ q) < length cs"
  shows "\<exists>s'. chunk_uploads (map (chunk_request tid cs) q) s =
             (map (\<lambda>k. ChunkReceived (k + 1) (Num (int (length cs))))
                [length q0 ..< length q0 + length q], s') \<and>
           chunk_dir s' tid = received cs (q0 @ q)"
  using assms
proof (induction q arbitrary: q0 s)
  case Nil
  then show ?case by simp
next
  case (Cons i q)
  let ?s1 = "s\<lparr>chunks := (chunks s)(tid \<mapsto> received cs (q0 @ [i]))\<rparr>"
  let ?r = "\<lambda>k. ChunkReceived (k + 1) (Num (int (length cs)))"
  from Cons.prems have d: "distinct (q0 @ [i])" and l: "length q0 + 1 \<noteq> length cs" by auto
  from chunk_upload_pending [OF Cons.prems(1) d l]
  have first: "chunk_upload (fst (chunk_request tid cs i)) (snd (chunk_request tid cs i)) s =
      (?r (length q0), [Emit ''upload-progress'' ''uploading''], ?s1)"
    by (simp add: chunk_request_def)
  have s1: "chunk_dir ?s1 tid = received cs (q0 @ [i])" by (simp add: chunk_dir_def)
  from Cons.prems have d': "distinct ((q0 @ [i]) @ q)" and l': "length ((q0 @ [i]) @ q) < length cs"
    by auto
  from Cons.IH [OF s1 d' l'] obtain s' where
    rest: "chunk_uploads (map (chunk_request tid cs) q) ?s1 =
             (map ?r [length (q0 @ [i]) ..< length (q0 @ [i]) + length q], s')"
    and dir: "chunk_dir s' tid = received cs ((q0 @ [i]) @ q)"
    by blast
  have range: "[length q0 ..< length q0 + length (i # q)] =
          length q0 # [length (q0 @ [i]) ..< length (q0 @ [i]) + length q]"
    by (subst upt_rec) simp
  have "chunk_uploads (map (chunk_request tid cs) (i # q)) s =
          (?r (length q0) # map ?r [length (q0 @ [i]) ..< length (q0 @ [i]) + length q], s')"
    by (simp only: list.map chunk_uploads_Cons first rest prod.case)
  then have "chunk_uploads (map (chunk_request tid cs) (i # q)) s =
          (map ?r [length q0 ..< length q0 + length (i # q)], s')"
    by (simp only: range list.map)
  moreover from dir have "chunk_dir s' tid = received cs (q0 @ i # q)" by simp
  ultimately show ?case by blast
qed

lemma chunk_uploads_append:
  "chunk_uploads (xs @ ys) s =
     (case chunk_uploads xs s of
        (rs, s') \<Rightarrow> (case chunk_uploads ys s' of (rs', s'') \<Rightarrow> (rs @ rs', s'')))"
  by (induction xs arbitrary: s) (auto split: prod.splits)

section \<open>Reassembly of a chunked upload\<close>

text \<open>
  Claim C6. The chunks \<open>cs\<close> of one transfer id, each index from 0 to
  \<open>length cs - 1\<close> sent exactly once, in any order \<open>p\<close>, to a server that holds no
  chunk of this id yet: every request but the last is answered as pending, the last
  one completes, and the merged file is the concatenation of the chunks in ascending
  index order. The result does not mention \<open>p\<close>: reverse or random order gives the
  same bytes as forward order.
\<close>

theorem chunks_merged_in_index_order:
  assumes "distinct p" and "set p = {..<length cs}" and "cs \<noteq> []" and "chunks s tid = None"
  shows "\<exists>rs s'. chunk_uploads (map (chunk_request tid cs) p) s = (rs, s') \<and>
           temp s' (tid @ ''-merged'') = Some (concat cs) \<and>
           last rs = ChunkComplete (tid @ ''-merged'') \<and>
           butlast rs = map (\<lambda>k. ChunkReceived (k + 1) (Num (int (length cs))))
                          [0 ..< length cs - 1] \<and>
           chunks s' tid = None"
proof -
  let ?r = "\<lambda>k. ChunkReceived (k + 1) (Num (int (length cs)))"
  from assms(3) have "0 \<in> {..<length cs}" by simp
  then have "0 \<in> set p" by (simp only: assms(2))
  then have "p \<noteq> []" by auto
  then obtain q l where p: "p = q @ [l]" by (cases p rule: rev_cases) auto
  have "length p = card (set p)" using distinct_card [OF assms(1)] by simp
  also have "\<dots> = length cs" unfolding assms(2) by simp
  finally have len: "length q = length cs - 1" and lt: "length q < length cs"
    using p by simp_all
  have start: "chunk_dir s tid = received cs []"
    using assms(4) by (simp add: chunk_dir_def received_Nil)
  have dq: "distinct ([] @ q)" and lq: "length ([] @ q) < length cs"
    using assms(1) p lt by simp_all
  from chunk_uploads_pending [OF start dq lq] obtain s1 where
    first: "chunk_uploads (map (chunk_request tid cs) q) s = (map ?r [0 ..< length q], s1)"
    and dir: "chunk_dir s1 tid = received cs q"
    by auto
  from chunk_upload_final [OF dir assms(1) [unfolded p] assms(2) [unfolded p]]
  obtain es s' where
    final: "chunk_upload (fst (chunk_request tid cs l)) (snd (chunk_request tid cs l)) s1 =
              (ChunkComplete (tid @ ''-merged''), es, s')"
    and out: "temp s' (tid @ ''-merged'') = Some (concat cs)" "chunks s' tid = None"
    by (auto simp: chunk_request_def)
  have run: "chunk_uploads (map (chunk_request tid cs) p) s =
          (map ?r [0 ..< length q] @ [ChunkComplete (tid @ ''-merged'')], s')"
    unfolding p
    by (simp only: map_append list.map chunk_uploads_append first prod.case
        chunk_uploads_Cons final chunk_uploads.simps)
  show ?thesis
  proof (intro exI conjI)
    show "chunk_uploads (map (chunk_request tid cs) p) s =
          (map ?r [0 ..< length q] @ [ChunkComplete (tid @ ''-merged'')], s')" by (rule run)
    show "temp s' (tid @ ''-merged'') = Some (concat cs)" by (rule out)
    show "last (map ?r [0 ..< length q] @ [ChunkComplete (tid @ ''-merged'')]) =
            ChunkComplete (tid @ ''-merged'')" by simp
    show "butlast (map ?r [0 ..< length q] @ [ChunkComplete (tid @ ''-merged'')]) =
            map ?r [0 ..< length cs - 1]" by (simp add: len)
    show "chunks s' tid = None" by (rule out)
  qed
qed

theorem chunks_merged_in_index_order_witness:
  "distinct [2, 0, 1 :: nat] \<and> set [2, 0, 1] = {..<length [[1, 2], [3], [4, 5 :: byte]]} \<and>
   chunks empty_state ''T1'' = None \<and>
   temp (snd (chunk_uploads (map (chunk_request ''T1'' [[1, 2], [3], [4, 5]]) [2, 0, 1])
           empty_state)) ''T1-merged'' = Some [1, 2, 3, 4, 5] \<and>
   temp (snd (chunk_uploads (map (chunk_request ''T1'' [[1, 2], [3], [4, 5]]) [0, 1, 2])
           empty_state)) ''T1-merged'' = Some [1, 2, 3, 4, 5]"
proof -
  let ?cs = "[[1, 2], [3], [4, 5 :: byte]]"
  have n: "{..<length ?cs} = {0, 1, 2}"
    by (simp add: lessThan_Suc eval_nat_numeral insert_commute)
  have 1: "distinct [2, 0, 1 :: nat]" by simp
  have 2: "set [2, 0, 1] = {..<length ?cs}" unfolding n by (simp add: insert_commute)
  have 3: "?cs \<noteq> []" by simp
  have 4: "chunks empty_state ''T1'' = None" by (simp add: empty_state_def)
  have 5: "distinct [0, 1, 2 :: nat]" by simp
  have 6: "set [0, 1, 2] = {..<length ?cs}" unfolding n by (simp add: insert_commute)
  have 7: "''T1'' @ ''-merged'' = ''T1-merged''" "concat ?cs = [1, 2, 3, 4, 5]" by simp_all
  from chunks_merged_in_index_order [OF 1 2 3 4]
  have a: "temp (snd (chunk_uploads (map (chunk_request ''T1'' ?cs) [2, 0, 1]) empty_state))
             ''T1-merged'' = Some [1, 2, 3, 4, 5]"
    unfolding 7 by auto
  from chunks_merged_in_index_order [OF 5 6 3 4]
  have b: "temp (snd (chunk_uploads (map (chunk_request ''T1'' ?cs) [0, 1, 2]) empty_state))
             ''T1-merged'' = Some [1, 2, 3, 4, 5]"
    unfolding 7 by auto
  from 1 2 4 a b show ?thesis by (intro conjI)
qed


end
